theory Spec2Isabelle
  imports Main "HOL-Library.Word" "HOL-Library.Monad_Syntax"
begin

unbundle bit_operations_syntax

section \<open>The content filter of bsd/net/content\_filter.c\<close>

text \<open>
  The theory embeds the data path of the socket content filter: the byte-range queues,
  the per-filter entries with their pass and peek offsets, the servicing of the control,
  pending and inject queues along the chain of attached filters, the verdicts (data
  update and drop), the submit path \<open>cfil_data_common\<close> and the flow-control lift
  \<open>cfil_ctl_rcvd\<close>.

  Conventions.
  \<^item> \<open>uint64_t\<close> is \<open>64 word\<close>, \<open>uint32_t\<close> and \<open>unsigned int\<close> are \<open>32 word\<close>;
    arithmetic wraps as in C. An \<open>errno_t\<close> is an \<open>int\<close>.
  \<^item> \<open>VERIFY\<close> and \<open>panic\<close> stop the kernel: a function that can reach one returns an
    \<open>option\<close>, and \<open>None\<close> is the panic.
  \<^item> The calls that leave the file (kernel-control enqueue, mbuf allocation, socket
    reinjection) take their result from \<open>ext_results\<close>, a table of arbitrary results
    indexed by the number of external calls made so far.
  \<^item> Messages handed to a filter agent, wakeups and reinjected packets are recorded in
    \<open>events\<close>, newest first. Statistics counters and logging are left out.
\<close>

subsection \<open>Machine types and constants\<close>

type_synonym u64 = "64 word"
type_synonym u32 = "32 word"
type_synonym errno = int

abbreviation MAX_CONTENT_FILTER :: nat where "MAX_CONTENT_FILTER \<equiv> 8"

text \<open>Error numbers of \<open>sys/errno.h\<close>.\<close>

abbreviation ENOMEM :: errno where "ENOMEM \<equiv> 12"
abbreviation EBUSY :: errno where "EBUSY \<equiv> 16"
abbreviation EINVAL :: errno where "EINVAL \<equiv> 22"
abbreviation EPIPE :: errno where "EPIPE \<equiv> 32"
abbreviation ENOBUFS :: errno where "ENOBUFS \<equiv> 55"
abbreviation EJUSTRETURN :: errno where "EJUSTRETURN \<equiv> - 2"

abbreviation CFM_MAX_OFFSET :: u64 where "CFM_MAX_OFFSET \<equiv> - 1"

abbreviation CFF_FLOW_CONTROLLED :: u32 where "CFF_FLOW_CONTROLLED \<equiv> 0x04"

abbreviation CFEF_CFIL_ATTACHED :: u32 where "CFEF_CFIL_ATTACHED \<equiv> 0x0001"
abbreviation CFEF_SENT_SOCK_ATTACHED :: u32 where "CFEF_SENT_SOCK_ATTACHED \<equiv> 0x0002"
abbreviation CFEF_DATA_START :: u32 where "CFEF_DATA_START \<equiv> 0x0004"
abbreviation CFEF_FLOW_CONTROLLED :: u32 where "CFEF_FLOW_CONTROLLED \<equiv> 0x0008"
abbreviation CFEF_SENT_DISCONNECT_IN :: u32 where "CFEF_SENT_DISCONNECT_IN \<equiv> 0x0010"
abbreviation CFEF_SENT_DISCONNECT_OUT :: u32 where "CFEF_SENT_DISCONNECT_OUT \<equiv> 0x0020"
abbreviation CFEF_CFIL_DETACHED :: u32 where "CFEF_CFIL_DETACHED \<equiv> 0x0080"

abbreviation CFIF_DROP :: u64 where "CFIF_DROP \<equiv> 0x0001"
abbreviation CFIF_CLOSE_WAIT :: u64 where "CFIF_CLOSE_WAIT \<equiv> 0x0002"
abbreviation CFIF_RETRY_INJECT_IN :: u64 where "CFIF_RETRY_INJECT_IN \<equiv> 0x0010"
abbreviation CFIF_RETRY_INJECT_OUT :: u64 where "CFIF_RETRY_INJECT_OUT \<equiv> 0x0020"
abbreviation CFIF_SHUT_WR :: u64 where "CFIF_SHUT_WR \<equiv> 0x0040"
abbreviation CFIF_SHUT_RD :: u64 where "CFIF_SHUT_RD \<equiv> 0x0080"
abbreviation CFIF_INITIAL_VERDICT :: u64 where "CFIF_INITIAL_VERDICT \<equiv> 0x0200"
abbreviation CFIF_NO_CLOSE_WAIT :: u64 where "CFIF_NO_CLOSE_WAIT \<equiv> 0x0400"

definition VERIFY :: "bool \<Rightarrow> unit option" where
  "VERIFY c = (if c then Some () else None)"

subsection \<open>Packets and byte-range queues\<close>

text \<open>
  \<open>struct mbuf\<close> is declared outside the file. A packet (a chain of mbufs) is kept as
  the three numbers \<open>cfil_data_length\<close> computes from it: the bytes of data from the
  packet header on, the mbuf bytes used and the number of mbufs.
\<close>

record mbuf =
  m_pktlen :: u32
  m_mbcnt :: u32
  m_mbnum :: u32

definition cfil_data_length :: "mbuf \<Rightarrow> u32" where
  "cfil_data_length m = m_pktlen m"

record cfil_queue =
  q_start :: u64
  q_end :: u64
  q_mq :: "mbuf list"

definition cfil_queue_init :: cfil_queue where
  "cfil_queue_init = \<lparr>q_start = 0, q_end = 0, q_mq = []\<rparr>"

definition cfil_queue_drain :: "cfil_queue \<Rightarrow> cfil_queue \<times> u64" where
  "cfil_queue_drain cfq =
     (let drained = q_start cfq - q_end cfq
      in (cfq\<lparr>q_start := 0, q_end := 0, q_mq := []\<rparr>, drained))"

definition cfil_queue_empty :: "cfil_queue \<Rightarrow> bool" where
  "cfil_queue_empty cfq \<longleftrightarrow> q_mq cfq = []"

definition cfil_queue_len :: "cfil_queue \<Rightarrow> u64" where
  "cfil_queue_len cfq = q_end cfq - q_start cfq"

definition cfil_queue_first :: "cfil_queue \<Rightarrow> mbuf option" where
  "cfil_queue_first cfq = (case q_mq cfq of [] \<Rightarrow> None | m # _ \<Rightarrow> Some m)"

text \<open>The bytes held by a list of packets, added up in 64 bits as \<open>queuesize\<close> is.\<close>

definition queuesize :: "mbuf list \<Rightarrow> u64" where
  "queuesize ms = sum_list (map (\<lambda>m. ucast (cfil_data_length m)) ms)"

text \<open>
  \<open>cfil_queue_verify\<close> holds when none of its checks fires. The checks on the
  inside of an mbuf (type, free pattern, chain length against \<open>m_length\<close>) are below the
  level of the packet record.
\<close>

definition cfil_queue_verify :: "cfil_queue \<Rightarrow> bool" where
  "cfil_queue_verify cfq \<longleftrightarrow>
     q_start cfq \<le> q_end cfq \<and>
     ((q_mq cfq = [] \<and> q_start cfq = q_end cfq) \<or>
      (q_mq cfq \<noteq> [] \<and> q_start cfq \<noteq> q_end cfq)) \<and>
     queuesize (q_mq cfq) = q_end cfq - q_start cfq"

text \<open>\<open>CFIL_QUEUE_VERIFY(x)\<close> is \<open>if (cfil_debug) cfil_queue_verify(x)\<close>.\<close>

definition CFIL_QUEUE_VERIFY :: "bool \<Rightarrow> cfil_queue \<Rightarrow> unit option" where
  "CFIL_QUEUE_VERIFY dbg cfq = VERIFY (dbg \<longrightarrow> cfil_queue_verify cfq)"

definition cfil_queue_enqueue :: "bool \<Rightarrow> cfil_queue \<Rightarrow> mbuf \<Rightarrow> u64 \<Rightarrow> cfil_queue option" where
  "cfil_queue_enqueue dbg cfq m len = do {
     _ \<leftarrow> CFIL_QUEUE_VERIFY dbg cfq;
     let cfq' = cfq\<lparr>q_mq := q_mq cfq @ [m], q_end := q_end cfq + len\<rparr>;
     _ \<leftarrow> CFIL_QUEUE_VERIFY dbg cfq';
     Some cfq'
   }"

definition cfil_queue_remove :: "bool \<Rightarrow> cfil_queue \<Rightarrow> mbuf \<Rightarrow> u64 \<Rightarrow> cfil_queue option" where
  "cfil_queue_remove dbg cfq m len = do {
     _ \<leftarrow> CFIL_QUEUE_VERIFY dbg cfq;
     _ \<leftarrow> VERIFY (ucast (cfil_data_length m) = len);
     let cfq' = cfq\<lparr>q_mq := remove1 m (q_mq cfq), q_start := q_start cfq + len\<rparr>;
     _ \<leftarrow> CFIL_QUEUE_VERIFY dbg cfq';
     Some cfq'
   }"

subsection \<open>Entries, flows, filters and the socket\<close>

record cfe_buf =
  cfe_pending_q :: cfil_queue
  cfe_ctl_q :: cfil_queue
  cfe_pass_offset :: u64
  cfe_peek_offset :: u64
  cfe_peeked :: u64

text \<open>
  A pointer to a \<open>struct content_filter\<close> or to a \<open>struct cfil_info\<close> is a
  \<open>nat option\<close>: \<open>None\<close> is \<open>NULL\<close>, \<open>Some a\<close> the object at address \<open>a\<close>.
\<close>

record cfil_entry =
  cfe_filter :: "nat option"
  cfe_cfil_info :: "nat option"
  cfe_flags :: u32
  cfe_snd :: cfe_buf
  cfe_rcv :: cfe_buf

record cfi_buf =
  cfi_pending_first :: u64
  cfi_pending_last :: u64
  cfi_pending_mbcnt :: u32
  cfi_pending_mbnum :: u32
  cfi_tail_drop_cnt :: u32
  cfi_pass_offset :: u64
  cfi_inject_q :: cfil_queue

text \<open>
  \<open>cfi_entries\<close> is the array of \<open>MAX_CONTENT_FILTER\<close> entries, indexed from 0;
  the entry of unit \<open>kcunit\<close> is \<open>cfi_entries[kcunit - 1]\<close>. \<open>cfi_ordered_entries\<close>
  is the singly linked list threaded through the entries by \<open>cfe_order_link\<close>, kept as
  the list of the units of its entries (\<open>CFI_ENTRY_KCUNIT\<close>), head first.
\<close>

record cfil_info =
  cfi_flags :: u64
  cfi_byte_inbound_count :: u64
  cfi_byte_outbound_count :: u64
  cfi_snd :: cfi_buf
  cfi_rcv :: cfi_buf
  cfi_entries :: "nat \<Rightarrow> cfil_entry"
  cfi_ordered_entries :: "nat list"

text \<open>
  \<open>cf_sock_entries\<close> is the tail queue of the entries attached to the filter; an entry
  pointer is the address of the flow's \<open>cfil_info\<close> together with the unit.
\<close>

record content_filter =
  cf_kcunit :: nat
  cf_flags :: u32
  cf_sock_count :: u32
  cf_sock_entries :: "(nat \<times> nat) list"

text \<open>
  \<open>struct socket\<close> is declared outside the file; the record keeps what the data path
  reads of it. \<open>so_flow_db\<close> is \<open>None\<close> when \<open>so->so_flow_db\<close> is \<open>NULL\<close>, otherwise
  the feature contexts of the other flows of the socket's flow database (the flow at hand
  is in the database too).
\<close>

record socket =
  so_content_filter :: bool  \<comment> \<open>\<open>so_flags & SOF_CONTENT_FILTER\<close>\<close>
  so_dgram :: bool  \<comment> \<open>\<open>NEED_DGRAM_FLOW_TRACKING(so)\<close>\<close>
  so_defunct :: bool  \<comment> \<open>\<open>so_state & SS_DEFUNCT\<close>\<close>
  so_proto_ok :: bool  \<comment> \<open>\<open>so_proto != NULL && so_proto->pr_domain != NULL\<close>\<close>
  so_loopback_faddr :: bool  \<comment> \<open>\<open>IS_LOOPBACK_FADDR(sotoinpcb(so))\<close>\<close>
  so_flow_db :: "cfil_info list option"

datatype cfil_event =
  EvAttached nat
| EvData nat bool u64 u64
| EvDisconnect nat bool
| EvReinject bool mbuf
| EvDefunct
| EvWakeup

text \<open>
  The globals of the file, and the state the functions of one flow run on: the globals,
  the socket and its \<open>cfil_info\<close>. \<open>filters\<close> holds the \<open>struct content_filter\<close>
  objects by address.
\<close>

record globals =
  filters :: "nat \<Rightarrow> content_filter"
  cfil_debug :: bool
  cfil_udp_gc_mbuf_num_max :: u32
  cfil_udp_gc_mbuf_cnt_max :: u32
  ext_results :: "nat \<Rightarrow> errno"
  ext_calls :: nat
  events :: "cfil_event list"

record world = globals +
  so :: socket
  cfil_info :: cfil_info

definition ext_call :: "'a globals_scheme \<Rightarrow> errno \<times> 'a globals_scheme" where
  "ext_call w = (ext_results w (ext_calls w), w\<lparr>ext_calls := Suc (ext_calls w)\<rparr>)"

definition emit :: "cfil_event \<Rightarrow> 'a globals_scheme \<Rightarrow> 'a globals_scheme" where
  "emit ev w = w\<lparr>events := ev # events w\<rparr>"

definition entry_at :: "world \<Rightarrow> nat \<Rightarrow> cfil_entry" where
  "entry_at w kcunit = cfi_entries (cfil_info w) (kcunit - 1)"

definition map_entry :: "(cfil_entry \<Rightarrow> cfil_entry) \<Rightarrow> nat \<Rightarrow> world \<Rightarrow> world" where
  "map_entry f kcunit w =
     w\<lparr>cfil_info := (cfil_info w)\<lparr>cfi_entries :=
        (cfi_entries (cfil_info w))(kcunit - 1 := f (cfi_entries (cfil_info w) (kcunit - 1)))\<rparr>\<rparr>"

text \<open>\<open>entrybuf = outgoing ? &entry->cfe_snd : &entry->cfe_rcv\<close>.\<close>

definition buf_of :: "bool \<Rightarrow> cfil_entry \<Rightarrow> cfe_buf" where
  "buf_of outgoing e = (if outgoing then cfe_snd e else cfe_rcv e)"

definition buf_upd :: "bool \<Rightarrow> (cfe_buf \<Rightarrow> cfe_buf) \<Rightarrow> cfil_entry \<Rightarrow> cfil_entry" where
  "buf_upd outgoing f e =
     (if outgoing then e\<lparr>cfe_snd := f (cfe_snd e)\<rparr> else e\<lparr>cfe_rcv := f (cfe_rcv e)\<rparr>)"

definition entrybuf :: "world \<Rightarrow> nat \<Rightarrow> bool \<Rightarrow> cfe_buf" where
  "entrybuf w kcunit outgoing = buf_of outgoing (entry_at w kcunit)"

definition map_entrybuf :: "(cfe_buf \<Rightarrow> cfe_buf) \<Rightarrow> nat \<Rightarrow> bool \<Rightarrow> world \<Rightarrow> world" where
  "map_entrybuf f kcunit outgoing w = map_entry (buf_upd outgoing f) kcunit w"

text \<open>\<open>cfi_buf = outgoing ? &cfil_info->cfi_snd : &cfil_info->cfi_rcv\<close>.\<close>

definition cfi_buf_of :: "world \<Rightarrow> bool \<Rightarrow> cfi_buf" where
  "cfi_buf_of w outgoing = (if outgoing then cfi_snd (cfil_info w) else cfi_rcv (cfil_info w))"

definition map_cfi_buf :: "(cfi_buf \<Rightarrow> cfi_buf) \<Rightarrow> bool \<Rightarrow> world \<Rightarrow> world" where
  "map_cfi_buf f outgoing w =
     (if outgoing then w\<lparr>cfil_info := (cfil_info w)\<lparr>cfi_snd := f (cfi_snd (cfil_info w))\<rparr>\<rparr>
      else w\<lparr>cfil_info := (cfil_info w)\<lparr>cfi_rcv := f (cfi_rcv (cfil_info w))\<rparr>\<rparr>)"

definition map_cfi_flags :: "(u64 \<Rightarrow> u64) \<Rightarrow> world \<Rightarrow> world" where
  "map_cfi_flags f w = w\<lparr>cfil_info := (cfil_info w)\<lparr>cfi_flags := f (cfi_flags (cfil_info w))\<rparr>\<rparr>"

definition map_filter ::
    "(content_filter \<Rightarrow> content_filter) \<Rightarrow> nat \<Rightarrow> 'a globals_scheme \<Rightarrow> 'a globals_scheme" where
  "map_filter f cfc w = w\<lparr>filters := (filters w)(cfc := f (filters w cfc))\<rparr>"

text \<open>\<open>IS_ENTRY_ATTACHED(cfil_info, kcunit)\<close>, for a flow that has its \<open>cfil_info\<close>.\<close>

definition IS_ENTRY_ATTACHED :: "world \<Rightarrow> nat \<Rightarrow> bool" where
  "IS_ENTRY_ATTACHED w kcunit \<longleftrightarrow>
     kcunit \<le> MAX_CONTENT_FILTER \<and> cfe_filter (entry_at w kcunit) \<noteq> None"

subsection \<open>The consistency checks\<close>

definition cfil_entry_buf_verify :: "bool \<Rightarrow> cfe_buf \<Rightarrow> bool" where
  "cfil_entry_buf_verify dbg b \<longleftrightarrow>
     (dbg \<longrightarrow> cfil_queue_verify (cfe_ctl_q b)) \<and>
     (dbg \<longrightarrow> cfil_queue_verify (cfe_pending_q b)) \<and>
     q_start (cfe_ctl_q b) \<ge> q_end (cfe_pending_q b) \<and>
     cfe_peek_offset b \<ge> cfe_pass_offset b \<and>
     q_start (cfe_ctl_q b) \<le> cfe_peeked b"

definition cfil_entry_verify :: "bool \<Rightarrow> cfil_entry \<Rightarrow> bool" where
  "cfil_entry_verify dbg e \<longleftrightarrow>
     cfil_entry_buf_verify dbg (cfe_snd e) \<and> cfil_entry_buf_verify dbg (cfe_rcv e)"

definition cfil_info_buf_verify :: "bool \<Rightarrow> cfi_buf \<Rightarrow> bool" where
  "cfil_info_buf_verify dbg b \<longleftrightarrow>
     (dbg \<longrightarrow> cfil_queue_verify (cfi_inject_q b)) \<and>
     cfi_pending_first b \<le> cfi_pending_last b"

definition cfil_info_verify :: "bool \<Rightarrow> cfil_info \<Rightarrow> bool" where
  "cfil_info_verify dbg info \<longleftrightarrow>
     cfil_info_buf_verify dbg (cfi_snd info) \<and>
     cfil_info_buf_verify dbg (cfi_rcv info) \<and>
     (\<forall>i \<in> set [0..<MAX_CONTENT_FILTER]. cfil_entry_verify dbg (cfi_entries info i))"

text \<open>\<open>CFIL_INFO_VERIFY(x)\<close> is \<open>if (cfil_debug) cfil_info_verify(x)\<close>.\<close>

definition CFIL_INFO_VERIFY :: "world \<Rightarrow> unit option" where
  "CFIL_INFO_VERIFY w = VERIFY (cfil_debug w \<longrightarrow> cfil_info_verify (cfil_debug w) (cfil_info w))"

subsection \<open>Events to the filter agent\<close>

text \<open>
  The three dispatch functions end at the same label: on \<open>ENOBUFS\<close> the entry and the
  filter are marked flow controlled. \<open>cfc\<close> is the entry's filter, which is not
  \<open>NULL\<close> on the paths that produce \<open>ENOBUFS\<close>.
\<close>

definition dispatch_done :: "world \<Rightarrow> nat \<Rightarrow> nat \<Rightarrow> errno \<Rightarrow> world \<times> errno" where
  "dispatch_done w kcunit cfc error =
     (if error = ENOBUFS
      then (map_filter (\<lambda>f. f\<lparr>cf_flags := cf_flags f OR CFF_FLOW_CONTROLLED\<rparr>) cfc
              (map_entry (\<lambda>e. e\<lparr>cfe_flags := cfe_flags e OR CFEF_FLOW_CONTROLLED\<rparr>) kcunit w),
            error)
      else (w, error))"

text \<open>
  \<open>cfil_dispatch_attach_event\<close>. With \<open>kcunit == 0\<close> the entry is the first of the
  ordered list. The external calls are \<open>kalloc_data\<close> and \<open>ctl_enqueuedata\<close>.
\<close>

definition cfil_dispatch_attach_event :: "world \<Rightarrow> nat \<Rightarrow> world \<times> errno" where
  "cfil_dispatch_attach_event w kcunit0 =
     (if \<not> so_proto_ok (so w) then (w, EINVAL)
      else case (if kcunit0 = 0
                 then (case cfi_ordered_entries (cfil_info w) of [] \<Rightarrow> None | k # _ \<Rightarrow> Some k)
                 else Some kcunit0) of
        None \<Rightarrow> (w, 0)
      | Some kcunit \<Rightarrow>
         (case cfe_filter (entry_at w kcunit) of
            None \<Rightarrow> (w, 0)
          | Some cfc \<Rightarrow>
             if cfe_flags (entry_at w kcunit) AND CFEF_SENT_SOCK_ATTACHED \<noteq> 0 then (w, 0)
             else if cf_flags (filters w cfc) AND CFF_FLOW_CONTROLLED \<noteq> 0
               then dispatch_done w kcunit cfc ENOBUFS
             else
               let (r1, w1) = ext_call w in
               if r1 \<noteq> 0 then dispatch_done w1 kcunit cfc ENOMEM
               else
                 let (r2, w2) = ext_call w1 in
                 if r2 \<noteq> 0 then dispatch_done w2 kcunit cfc r2
                 else dispatch_done
                   (emit (EvAttached kcunit)
                     (map_entry (\<lambda>e. e\<lparr>cfe_flags := cfe_flags e OR CFEF_SENT_SOCK_ATTACHED\<rparr>)
                        kcunit w2))
                   kcunit cfc 0))"

text \<open>\<open>SET_NO_CLOSE_WAIT(inp, cfil_info)\<close>.\<close>

definition SET_NO_CLOSE_WAIT :: "world \<Rightarrow> world" where
  "SET_NO_CLOSE_WAIT w =
     (if cfi_flags (cfil_info w) AND CFIF_INITIAL_VERDICT = 0 \<and> so_loopback_faddr (so w)
      then map_cfi_flags (\<lambda>f. f OR CFIF_NO_CLOSE_WAIT) w else w)"

text \<open>\<open>cfil_dispatch_disconnect_event\<close>. The external call is \<open>ctl_enqueuedata\<close>.\<close>

definition cfil_dispatch_disconnect_event :: "world \<Rightarrow> nat \<Rightarrow> bool \<Rightarrow> world \<times> errno" where
  "cfil_dispatch_disconnect_event w kcunit outgoing =
     (case cfe_filter (entry_at w kcunit) of
        None \<Rightarrow> (w, 0)
      | Some cfc \<Rightarrow>
         let w0 = SET_NO_CLOSE_WAIT w in
         if (outgoing \<and> cfe_flags (entry_at w0 kcunit) AND CFEF_SENT_DISCONNECT_OUT \<noteq> 0) \<or>
            (\<not> outgoing \<and> cfe_flags (entry_at w0 kcunit) AND CFEF_SENT_DISCONNECT_IN \<noteq> 0)
         then (w0, 0)
         else if outgoing \<and> \<not> cfil_queue_empty (cfe_ctl_q (entrybuf w0 kcunit outgoing))
           then dispatch_done w0 kcunit cfc EBUSY
         else if cf_flags (filters w0 cfc) AND CFF_FLOW_CONTROLLED \<noteq> 0
           then dispatch_done w0 kcunit cfc ENOBUFS
         else
           let (r, w1) = ext_call w0 in
           if r \<noteq> 0 then dispatch_done w1 kcunit cfc r
           else dispatch_done
             (emit (EvDisconnect kcunit outgoing)
               (map_entry (\<lambda>e. e\<lparr>cfe_flags := cfe_flags e OR
                   (if outgoing then CFEF_SENT_DISCONNECT_OUT else CFEF_SENT_DISCONNECT_IN)\<rparr>)
                  kcunit w1))
             kcunit cfc 0)"

text \<open>
  \<open>cfil_dispatch_data_event\<close>. The external calls are \<open>m_copym_mode\<close>,
  \<open>mbuf_allocpacket\<close> and \<open>ctl_enqueuembuf\<close>. The message carries the offsets
  \<open>cfe_peeked\<close> and \<open>cfe_peeked + copylen\<close>.
\<close>

definition cfil_dispatch_data_event ::
    "world \<Rightarrow> nat \<Rightarrow> bool \<Rightarrow> mbuf \<Rightarrow> u32 \<Rightarrow> u32 \<Rightarrow> world \<times> errno" where
  "cfil_dispatch_data_event w kcunit outgoing data copyoffset copylen =
     (case cfe_filter (entry_at w kcunit) of
        None \<Rightarrow> (w, 0)
      | Some cfc \<Rightarrow>
         if cf_flags (filters w cfc) AND CFF_FLOW_CONTROLLED \<noteq> 0
         then dispatch_done w kcunit cfc ENOBUFS
         else
           let (r1, w1) = ext_call w in
           if r1 \<noteq> 0 then dispatch_done w1 kcunit cfc ENOMEM
           else
             let (r2, w2) = ext_call w1 in
             if r2 \<noteq> 0 then dispatch_done w2 kcunit cfc ENOMEM
             else
               let (r3, w3) = ext_call w2 in
               if r3 \<noteq> 0 then dispatch_done w3 kcunit cfc r3
               else dispatch_done
                 (emit (EvData kcunit outgoing (cfe_peeked (entrybuf w3 kcunit outgoing))
                          (cfe_peeked (entrybuf w3 kcunit outgoing) + ucast copylen))
                   (map_entry (\<lambda>e. e\<lparr>cfe_flags := cfe_flags e AND NOT CFEF_FLOW_CONTROLLED\<rparr>)
                      kcunit w3))
                 kcunit cfc 0)"

subsection \<open>Servicing the control queue of one entry\<close>

text \<open>
  The head of \<open>cfil_data_service_ctl_q\<close>: the attach event is sent if it has not been;
  the result says whether the function goes on to the queues (\<open>True\<close>) or leaves at
  \<open>done\<close> with the error given.
\<close>

definition ctl_q_start :: "world \<Rightarrow> nat \<Rightarrow> world \<times> bool \<times> errno" where
  "ctl_q_start w kcunit =
     (if cfe_flags (entry_at w kcunit) AND CFEF_SENT_SOCK_ATTACHED = 0
      then
        let (w1, error) = cfil_dispatch_attach_event w kcunit in
        if error \<noteq> 0
        then (w1, False, if error = ENOBUFS \<or> error = ENOMEM then 0 else error)
        else (w1, True, error)
      else if cfe_flags (entry_at w kcunit) AND CFEF_DATA_START = 0 then (w, False, 0)
      else (w, True, 0))"

text \<open>
  The first loop, "move all data that can pass": it reads and writes the entry's buffer
  only. The loop ends when the control queue is empty, when its first byte is not below
  the pass offset, or at a packet the pass offset covers in part.
\<close>

function ctl_q_move_loop :: "bool \<Rightarrow> cfe_buf \<Rightarrow> cfe_buf option" where
  "ctl_q_move_loop dbg b =
     (case cfil_queue_first (cfe_ctl_q b) of
        None \<Rightarrow> Some b
      | Some data \<Rightarrow>
         if \<not> q_start (cfe_ctl_q b) < cfe_pass_offset b then Some b
         else
           let datalen = cfil_data_length data;
               copylen = (if q_start (cfe_ctl_q b) + ucast datalen \<le> cfe_pass_offset b
                          then datalen
                          else ucast (cfe_pass_offset b - q_start (cfe_ctl_q b)))
           in do {
             _ \<leftarrow> VERIFY (copylen \<le> datalen);
             let b1 = (if q_start (cfe_ctl_q b) + ucast copylen > cfe_peeked b
                       then b\<lparr>cfe_peeked := q_start (cfe_ctl_q b) + ucast copylen\<rparr> else b);
             if copylen < datalen then Some b1
             else do {
               ctl \<leftarrow> cfil_queue_remove dbg (cfe_ctl_q b1) data (ucast datalen);
               pending \<leftarrow> cfil_queue_enqueue dbg (cfe_pending_q b1) data (ucast datalen);
               ctl_q_move_loop dbg (b1\<lparr>cfe_ctl_q := ctl, cfe_pending_q := pending\<rparr>)
             }
           })"
  by pat_completeness auto
termination
proof (relation "measure (\<lambda>(dbg, b). length (q_mq (cfe_ctl_q b)))")
  show "wf (measure (\<lambda>(dbg, b). length (q_mq (cfe_ctl_q b))))" by simp
next
  fix dbg :: bool and b b1 :: cfe_buf and data :: mbuf and datalen copylen :: u32
    and ctl pending :: cfil_queue
  assume first: "cfil_queue_first (cfe_ctl_q b) = Some data"
    and b1: "b1 = (if cfe_peeked b < q_start (cfe_ctl_q b) + ucast copylen
                   then b\<lparr>cfe_peeked := q_start (cfe_ctl_q b) + ucast copylen\<rparr> else b)"
    and rem: "cfil_queue_remove dbg (cfe_ctl_q b1) data (ucast datalen) = Some ctl"
  from first obtain ms where ms: "q_mq (cfe_ctl_q b) = data # ms"
    by (auto simp: cfil_queue_first_def split: list.splits)
  from b1 have "cfe_ctl_q b1 = cfe_ctl_q b" by (simp split: if_splits)
  with rem ms have "q_mq ctl = ms"
    by (auto simp: cfil_queue_remove_def bind_eq_Some_conv Let_def)
  with ms show "((dbg, b1\<lparr>cfe_ctl_q := ctl, cfe_pending_q := pending\<rparr>), (dbg, b)) \<in>
      measure (\<lambda>(dbg, b). length (q_mq (cfe_ctl_q b)))"
    by simp
qed

text \<open>
  The second loop, "now deal with remaining data the filter wants to peek at". It walks
  the packets of the control queue from the first (\<open>cfil_queue_next\<close>) without taking any
  out; \<open>ds\<close> is what is left of the walk and \<open>currentoffset\<close> the offset of its first
  byte. An error of the dispatch ends the loop with the data left in the queue.
\<close>

fun ctl_q_peek_loop :: "world \<Rightarrow> nat \<Rightarrow> bool \<Rightarrow> mbuf list \<Rightarrow> u64 \<Rightarrow> world option" where
  "ctl_q_peek_loop w kcunit outgoing [] currentoffset = Some w"
| "ctl_q_peek_loop w kcunit outgoing (data # ds) currentoffset =
     (if \<not> currentoffset < cfe_peek_offset (entrybuf w kcunit outgoing) then Some w
      else
        let datalen = cfil_data_length data in
        if currentoffset + ucast datalen \<le> cfe_peeked (entrybuf w kcunit outgoing)
        then ctl_q_peek_loop w kcunit outgoing ds (currentoffset + ucast datalen)
        else
          let copyoffset = (ucast (cfe_peeked (entrybuf w kcunit outgoing) - currentoffset) :: u32)
          in do {
            _ \<leftarrow> VERIFY (copyoffset < datalen);
            let copylen0 = datalen - copyoffset;
            _ \<leftarrow> VERIFY (copylen0 \<le> datalen);
            let copylen =
              (if currentoffset + ucast copyoffset + ucast copylen0 >
                    cfe_peek_offset (entrybuf w kcunit outgoing)
               then ucast (cfe_peek_offset (entrybuf w kcunit outgoing) -
                           (currentoffset + ucast copyoffset))
               else copylen0);
            if copylen = 0 then Some w
            else
              let (w1, error) = cfil_dispatch_data_event w kcunit outgoing data copyoffset copylen
              in
              if error \<noteq> 0 then Some w1
              else
                let w2 = map_entrybuf (\<lambda>b. b\<lparr>cfe_peeked := cfe_peeked b + ucast copylen\<rparr>)
                           kcunit outgoing w1
                in
                if copylen + copyoffset < datalen then Some w2
                else ctl_q_peek_loop w2 kcunit outgoing ds (currentoffset + ucast datalen)
          })"

text \<open>
  The tail of \<open>cfil_data_service_ctl_q\<close> after the pending queue has been serviced with
  no error: the disconnect event that could not be sent earlier.
\<close>

definition ctl_q_disconnect :: "world \<Rightarrow> nat \<Rightarrow> bool \<Rightarrow> world" where
  "ctl_q_disconnect w kcunit outgoing =
     (if outgoing
      then (if cfi_flags (cfil_info w) AND CFIF_SHUT_WR \<noteq> 0 \<and>
               cfe_flags (entry_at w kcunit) AND CFEF_SENT_DISCONNECT_OUT = 0
            then fst (cfil_dispatch_disconnect_event w kcunit True) else w)
      else (if cfi_flags (cfil_info w) AND CFIF_SHUT_RD \<noteq> 0 \<and>
               cfe_flags (entry_at w kcunit) AND CFEF_SENT_DISCONNECT_IN = 0
            then fst (cfil_dispatch_disconnect_event w kcunit False) else w))"

subsection \<open>Servicing along the chain of entries\<close>

text \<open>
  \<open>cfil_data_service_ctl_q\<close>, \<open>cfil_service_pending_queue\<close> and \<open>cfil_data_filter\<close>
  call each other, each call moving to an entry further down the ordered list. The
  bodies are written first with the two loops over the following entries as parameters:
  \<^item> \<open>ns w outgoing error\<close> is the loop of \<open>cfil_service_pending_queue\<close> that services the
    control queue of each following entry when the pending queue is empty;
  \<^item> \<open>nf w outgoing data datalen error\<close> is the loop that offers a packet to each
    following entry with \<open>cfil_data_filter\<close>.
  Both stop at the first error and otherwise leave \<open>error\<close> as it was. The recursion
  along the ordered list then ties them to the bodies (\<open>chain_walks\<close>).

  \<open>pending_q_loop\<close> is the loop over the pending queue: \<open>ds\<close> are the packets of the
  queue from its first on, \<open>curlen\<close> the bytes taken out so far. The calls of its body
  reach the following entries only, so the first packet of the queue at the next
  iteration is the next packet of \<open>ds\<close> (lemma \<open>pending_q_loop_queue\<close> below).
\<close>

type_synonym next_service = "world \<Rightarrow> bool \<Rightarrow> errno \<Rightarrow> (world \<times> errno) option"
type_synonym next_filter = "world \<Rightarrow> bool \<Rightarrow> mbuf \<Rightarrow> u32 \<Rightarrow> errno \<Rightarrow> (world \<times> errno) option"

definition inject_q_enqueue :: "world \<Rightarrow> bool \<Rightarrow> mbuf \<Rightarrow> u32 \<Rightarrow> world option" where
  "inject_q_enqueue w outgoing data datalen = do {
     q \<leftarrow> cfil_queue_enqueue (cfil_debug w) (cfi_inject_q (cfi_buf_of w outgoing)) data
            (ucast datalen);
     Some (map_cfi_buf (\<lambda>b. b\<lparr>cfi_inject_q := q\<rparr>) outgoing w)
   }"

fun pending_q_loop ::
  "next_filter \<Rightarrow> world \<Rightarrow> nat \<Rightarrow> bool \<Rightarrow> u64 \<Rightarrow> u64 \<Rightarrow> errno \<Rightarrow> mbuf list \<Rightarrow>
   (world \<times> errno) option"
where
  "pending_q_loop nf w kcunit outgoing passlen curlen error [] = Some (w, error)"
| "pending_q_loop nf w kcunit outgoing passlen curlen error (data # ds) =
     (let datalen = cfil_data_length data in
      if curlen + ucast datalen > passlen then Some (w, error)
      else do {
        q \<leftarrow> cfil_queue_remove (cfil_debug w) (cfe_pending_q (entrybuf w kcunit outgoing)) data
               (ucast datalen);
        let w1 = map_entrybuf (\<lambda>b. b\<lparr>cfe_pending_q := q\<rparr>) kcunit outgoing w;
        (w2, error1) \<leftarrow> nf w1 outgoing data datalen error;
        w3 \<leftarrow> (if error1 = 0 then inject_q_enqueue w2 outgoing data datalen else Some w2);
        pending_q_loop nf w3 kcunit outgoing passlen (curlen + ucast datalen) error1 ds
      })"

definition service_pending_queue_with ::
    "next_service \<Rightarrow> next_filter \<Rightarrow> world \<Rightarrow> nat \<Rightarrow> bool \<Rightarrow> (world \<times> errno) option" where
  "service_pending_queue_with ns nf w kcunit outgoing =
     (let pending_q = cfe_pending_q (entrybuf w kcunit outgoing);
          passlen = cfe_pass_offset (entrybuf w kcunit outgoing) - q_start pending_q
      in do {
        (w1, error) \<leftarrow>
          (if cfil_queue_empty pending_q then ns w outgoing 0
           else pending_q_loop nf w kcunit outgoing passlen 0 0 (q_mq pending_q));
        _ \<leftarrow> CFIL_INFO_VERIFY w1;
        Some (w1, error)
      })"

definition service_ctl_q_with ::
    "next_service \<Rightarrow> next_filter \<Rightarrow> world \<Rightarrow> nat \<Rightarrow> bool \<Rightarrow> (world \<times> errno) option" where
  "service_ctl_q_with ns nf w kcunit outgoing =
     (case ctl_q_start w kcunit of
        (w1, False, error) \<Rightarrow> do { _ \<leftarrow> CFIL_INFO_VERIFY w1; Some (w1, error) }
      | (w1, True, _) \<Rightarrow> do {
          b \<leftarrow> ctl_q_move_loop (cfil_debug w1) (entrybuf w1 kcunit outgoing);
          let w2 = map_entrybuf (\<lambda>_. b) kcunit outgoing w1;
          _ \<leftarrow> CFIL_INFO_VERIFY w2;
          w3 \<leftarrow> ctl_q_peek_loop w2 kcunit outgoing
                  (q_mq (cfe_ctl_q (entrybuf w2 kcunit outgoing)))
                  (q_start (cfe_ctl_q (entrybuf w2 kcunit outgoing)));
          _ \<leftarrow> CFIL_INFO_VERIFY w3;
          (w4, error) \<leftarrow> service_pending_queue_with ns nf w3 kcunit outgoing;
          let w5 = (if error \<noteq> 0 then w4 else ctl_q_disconnect w4 kcunit outgoing);
          _ \<leftarrow> CFIL_INFO_VERIFY w5;
          Some (w5, error)
        })"

definition data_filter_with ::
    "next_service \<Rightarrow> next_filter \<Rightarrow> world \<Rightarrow> nat \<Rightarrow> bool \<Rightarrow> mbuf \<Rightarrow> u32 \<Rightarrow>
     (world \<times> errno) option" where
  "data_filter_with ns nf w kcunit outgoing data datalen =
     (if cfe_filter (entry_at w kcunit) = None
      then do { _ \<leftarrow> CFIL_INFO_VERIFY w; Some (w, 0) }
      else do {
        q \<leftarrow> cfil_queue_enqueue (cfil_debug w) (cfe_ctl_q (entrybuf w kcunit outgoing)) data
               (ucast datalen);
        let w1 = map_entrybuf (\<lambda>b. b\<lparr>cfe_ctl_q := q\<rparr>) kcunit outgoing w;
        (w2, error) \<leftarrow> service_ctl_q_with ns nf w1 kcunit outgoing;
        _ \<leftarrow> CFIL_INFO_VERIFY w2;
        Some (w2, EJUSTRETURN)
      })"

text \<open>
  The two loops over the entries \<open>k # rest\<close> that follow an entry: each runs the body for
  \<open>k\<close>, whose own following entries are \<open>rest\<close>, and goes on along \<open>rest\<close> while the
  error is 0.
\<close>

primrec chain_walks :: "nat list \<Rightarrow> next_service \<times> next_filter" where
  "chain_walks [] = ((\<lambda>w outgoing error. Some (w, error)),
                     (\<lambda>w outgoing data datalen error. Some (w, error)))"
| "chain_walks (k # rest) =
     (let ns = fst (chain_walks rest); nf = snd (chain_walks rest) in
      ((\<lambda>w outgoing error. do {
          (w1, error1) \<leftarrow> service_ctl_q_with ns nf w k outgoing;
          if error1 \<noteq> 0 then Some (w1, error1) else ns w1 outgoing error1
        }),
       (\<lambda>w outgoing data datalen error. do {
          (w1, error1) \<leftarrow> data_filter_with ns nf w k outgoing data datalen;
          if error1 \<noteq> 0 then Some (w1, error1) else nf w1 outgoing data datalen error1
        })))"

definition next_service_walk :: "nat list \<Rightarrow> next_service" where
  "next_service_walk rest = fst (chain_walks rest)"

definition next_filter_walk :: "nat list \<Rightarrow> next_filter" where
  "next_filter_walk rest = snd (chain_walks rest)"

text \<open>
  The functions for the entry of unit \<open>kcunit\<close> whose following entries are \<open>rest\<close>.
\<close>

definition service_ctl_q :: "world \<Rightarrow> nat \<Rightarrow> nat list \<Rightarrow> bool \<Rightarrow> (world \<times> errno) option" where
  "service_ctl_q w kcunit rest outgoing =
     service_ctl_q_with (next_service_walk rest) (next_filter_walk rest) w kcunit outgoing"

definition service_pending_queue ::
    "world \<Rightarrow> nat \<Rightarrow> nat list \<Rightarrow> bool \<Rightarrow> (world \<times> errno) option" where
  "service_pending_queue w kcunit rest outgoing =
     service_pending_queue_with (next_service_walk rest) (next_filter_walk rest) w kcunit outgoing"

definition data_filter ::
    "world \<Rightarrow> nat \<Rightarrow> nat list \<Rightarrow> bool \<Rightarrow> mbuf \<Rightarrow> u32 \<Rightarrow> (world \<times> errno) option" where
  "data_filter w kcunit rest outgoing data datalen =
     data_filter_with (next_service_walk rest) (next_filter_walk rest) w kcunit outgoing
       data datalen"

text \<open>
  The entries after the entry of unit \<open>kcunit\<close> on the ordered list, and the functions
  under the names and with the arguments they have in the source.
\<close>

definition SLIST_NEXT_from :: "nat list \<Rightarrow> nat \<Rightarrow> nat list" where
  "SLIST_NEXT_from ordered kcunit = tl (dropWhile (\<lambda>k. k \<noteq> kcunit) ordered)"

definition cfil_data_service_ctl_q :: "world \<Rightarrow> nat \<Rightarrow> bool \<Rightarrow> (world \<times> errno) option" where
  "cfil_data_service_ctl_q w kcunit outgoing =
     service_ctl_q w kcunit (SLIST_NEXT_from (cfi_ordered_entries (cfil_info w)) kcunit) outgoing"

definition cfil_service_pending_queue :: "world \<Rightarrow> nat \<Rightarrow> bool \<Rightarrow> (world \<times> errno) option" where
  "cfil_service_pending_queue w kcunit outgoing =
     service_pending_queue w kcunit
       (SLIST_NEXT_from (cfi_ordered_entries (cfil_info w)) kcunit) outgoing"

definition cfil_data_filter ::
    "world \<Rightarrow> nat \<Rightarrow> bool \<Rightarrow> mbuf \<Rightarrow> u32 \<Rightarrow> (world \<times> errno) option" where
  "cfil_data_filter w kcunit outgoing data datalen =
     data_filter w kcunit (SLIST_NEXT_from (cfi_ordered_entries (cfil_info w)) kcunit)
       outgoing data datalen"

subsection \<open>Who is still attached, shutdown notification\<close>

definition kcunits :: "nat list" where
  "kcunits = [1..<Suc MAX_CONTENT_FILTER]"

text \<open>
  The test both \<open>cfil_filters_attached\<close> and \<open>cfil_filters_udp_attached_per_flow\<close> make
  on the entries of a \<open>cfil_info\<close>.
\<close>

definition info_has_attached :: "cfil_info \<Rightarrow> bool" where
  "info_has_attached info \<longleftrightarrow>
     (\<exists>kcunit \<in> set kcunits.
        cfe_filter (cfi_entries info (kcunit - 1)) \<noteq> None \<and>
        cfe_flags (cfi_entries info (kcunit - 1)) AND CFEF_SENT_SOCK_ATTACHED \<noteq> 0 \<and>
        cfe_flags (cfi_entries info (kcunit - 1)) AND CFEF_CFIL_DETACHED = 0)"

text \<open>
  \<open>cfil_filters_attached\<close>; for a datagram socket it is \<open>cfil_filters_udp_attached\<close>
  with \<open>need_wait\<close> false, which looks at every flow of the flow database.
\<close>

definition cfil_filters_attached :: "world \<Rightarrow> bool" where
  "cfil_filters_attached w =
     (if so_dgram (so w)
      then (case so_flow_db (so w) of
              None \<Rightarrow> False
            | Some others \<Rightarrow>
                so_content_filter (so w) \<and>
                (\<exists>info \<in> set (cfil_info w # others). info_has_attached info))
      else so_content_filter (so w) \<and> info_has_attached (cfil_info w))"

datatype shut_how = SHUT_RD | SHUT_WR | SHUT_RDWR

text \<open>
  \<open>cfil_sock_notify_shutdown\<close>. For a datagram socket the flow database is walked with
  drop and shut flags 0; what the walk does to the flow at hand is the same loop, what
  it does to the other flows of the socket is outside this state.
\<close>

definition notify_shutdown_unit :: "shut_how \<Rightarrow> nat \<Rightarrow> world \<Rightarrow> world" where
  "notify_shutdown_unit how kcunit w =
     (let w1 = (if how \<noteq> SHUT_WR then fst (cfil_dispatch_disconnect_event w kcunit False) else w)
      in if how \<noteq> SHUT_RD then fst (cfil_dispatch_disconnect_event w1 kcunit True) else w1)"

definition cfil_sock_notify_shutdown :: "world \<Rightarrow> shut_how \<Rightarrow> world" where
  "cfil_sock_notify_shutdown w how =
     (if so_content_filter (so w) \<and> (so_dgram (so w) \<longrightarrow> so_flow_db (so w) \<noteq> None)
      then fold (notify_shutdown_unit how) kcunits w else w)"

text \<open>
  \<open>cfil_sock_data_pending\<close> on the send (\<open>outgoing\<close>) or receive buffer; \<open>None\<close> is its
  \<open>VERIFY(pending < INT32_MAX)\<close>. The datagram variant adds up every flow of the
  database.
\<close>

definition udp_flow_pending :: "bool \<Rightarrow> cfil_info \<Rightarrow> u64" where
  "udp_flow_pending outgoing info =
     (let b = (if outgoing then cfi_snd info else cfi_rcv info);
          pending = cfi_pending_last b - cfi_pending_first b
      in if ucast (cfi_pending_mbcnt b) > pending then ucast (cfi_pending_mbcnt b) else pending)"

definition cfil_sock_data_pending :: "world \<Rightarrow> bool \<Rightarrow> u64 option" where
  "cfil_sock_data_pending w outgoing =
     (if so_dgram (so w)
      then (case so_flow_db (so w) of
              Some others \<Rightarrow>
                if so_content_filter (so w)
                then (let total = sum_list (map (udp_flow_pending outgoing) (cfil_info w # others))
                      in do { _ \<leftarrow> VERIFY (total < 0x7fffffff); Some total })
                else Some 0
            | None \<Rightarrow> Some 0)
      else
        let b = cfi_buf_of w outgoing;
            pending0 = (if so_content_filter (so w)
                        then cfi_pending_last b - cfi_pending_first b else 0);
            pending = (if so_content_filter (so w) \<and> pending0 > ucast (cfi_pending_mbcnt b)
                       then ucast (cfi_pending_mbcnt b) else pending0)
        in do { _ \<leftarrow> VERIFY (pending < 0x7fffffff); Some pending })"

subsection \<open>Reinjection\<close>

text \<open>
  The loop of \<open>cfil_service_inject_queue\<close>. Each packet leaves the inject queue, the
  pending window of the direction moves up by its length, and the packet goes back to
  the socket: \<open>sosend_reinject\<close> for outgoing data, whose error ends the loop, or
  \<open>sbappendstream\<close>/\<open>sbappendchain\<close> for incoming data. The result carries \<open>error\<close>.
\<close>

function inject_q_loop :: "world \<Rightarrow> bool \<Rightarrow> errno \<Rightarrow> (world \<times> errno) option" where
  "inject_q_loop w outgoing error =
     (case cfil_queue_first (cfi_inject_q (cfi_buf_of w outgoing)) of
        None \<Rightarrow> Some (w, error)
      | Some data \<Rightarrow> do {
          q \<leftarrow> cfil_queue_remove (cfil_debug w) (cfi_inject_q (cfi_buf_of w outgoing)) data
                 (ucast (cfil_data_length data));
          let w1 = map_cfi_buf (\<lambda>b. b\<lparr>cfi_inject_q := q,
                     cfi_pending_first := cfi_pending_first b + ucast (cfil_data_length data),
                     cfi_pending_mbcnt := cfi_pending_mbcnt b - m_mbcnt data,
                     cfi_pending_mbnum := cfi_pending_mbnum b - m_mbnum data\<rparr>) outgoing w;
          _ \<leftarrow> VERIFY (cfil_info_buf_verify (cfil_debug w1) (cfi_buf_of w1 outgoing));
          let (r, w2) = ext_call w1;
          if outgoing \<and> r \<noteq> 0 then Some (w2, r)
          else inject_q_loop (emit (EvReinject outgoing data) w2) outgoing error
        })"
  by pat_completeness auto
termination
proof (relation "measure (\<lambda>(w, outgoing, error). length (q_mq (cfi_inject_q (cfi_buf_of w outgoing))))")
  show "wf (measure (\<lambda>(w, outgoing, error).
      length (q_mq (cfi_inject_q (cfi_buf_of w outgoing)))))" by simp
next
  fix w w1 w2 :: world and outgoing :: bool and error r :: errno and data :: mbuf
    and q :: cfil_queue and x :: "errno \<times> world"
  assume first: "cfil_queue_first (cfi_inject_q (cfi_buf_of w outgoing)) = Some data"
    and rem: "cfil_queue_remove (cfil_debug w) (cfi_inject_q (cfi_buf_of w outgoing)) data
                (ucast (cfil_data_length data)) = Some q"
    and w1: "w1 = map_cfi_buf (\<lambda>b. b\<lparr>cfi_inject_q := q,
                     cfi_pending_first := cfi_pending_first b + ucast (cfil_data_length data),
                     cfi_pending_mbcnt := cfi_pending_mbcnt b - m_mbcnt data,
                     cfi_pending_mbnum := cfi_pending_mbnum b - m_mbnum data\<rparr>) outgoing w"
    and x: "x = ext_call w1" and rw: "(r, w2) = x"
  from first obtain ms where ms: "q_mq (cfi_inject_q (cfi_buf_of w outgoing)) = data # ms"
    by (auto simp: cfil_queue_first_def split: list.splits)
  with rem have "q_mq q = ms"
    by (auto simp: cfil_queue_remove_def bind_eq_Some_conv Let_def)
  moreover from w1 x rw have "cfi_inject_q (cfi_buf_of (emit (EvReinject outgoing data) w2) outgoing) = q"
    by (auto simp: ext_call_def emit_def map_cfi_buf_def cfi_buf_of_def)
  ultimately show "((emit (EvReinject outgoing data) w2, outgoing, error), (w, outgoing, error)) \<in>
      measure (\<lambda>(w, outgoing, error). length (q_mq (cfi_inject_q (cfi_buf_of w outgoing))))"
    using ms by simp
qed

text \<open>
  \<open>cfil_service_inject_queue\<close>. After the loop: the retry flag on an error, the shutdown
  notification once the write side is shut, and the wakeup of a thread waiting in close
  for the filters to detach. The wakeups of the socket buffer and the delayed marking of
  a dead socket belong to the socket layer and are left out.
\<close>

definition cfil_service_inject_queue :: "world \<Rightarrow> bool \<Rightarrow> (world \<times> errno) option" where
  "cfil_service_inject_queue w outgoing =
     (if so_defunct (so w) then Some (w, 0)
      else
        let w0 = map_cfi_flags (\<lambda>f. f AND NOT (if outgoing then CFIF_RETRY_INJECT_OUT
                                                  else CFIF_RETRY_INJECT_IN)) w
        in if cfil_queue_empty (cfi_inject_q (cfi_buf_of w0 outgoing)) then Some (w0, 0)
        else do {
          (w1, error) \<leftarrow> inject_q_loop w0 outgoing 0;
          let w2 = (if error \<noteq> 0
                    then map_cfi_flags (\<lambda>f. f OR (if outgoing then CFIF_RETRY_INJECT_OUT
                                                    else CFIF_RETRY_INJECT_IN)) w1
                    else w1);
          w3 \<leftarrow> (if cfi_flags (cfil_info w2) AND CFIF_SHUT_WR \<noteq> 0
                  then do {
                    let w' = cfil_sock_notify_shutdown w2 SHUT_WR;
                    _ \<leftarrow> cfil_sock_data_pending w' True;
                    Some w'
                  }
                  else Some w2);
          let w4 = (if cfi_flags (cfil_info w3) AND CFIF_CLOSE_WAIT \<noteq> 0 \<and>
                       \<not> cfil_filters_attached w3
                    then emit EvWakeup w3 else w3);
          _ \<leftarrow> CFIL_INFO_VERIFY w4;
          Some (w4, error)
        })"

subsection \<open>Verdicts\<close>

text \<open>
  \<open>cfil_acquire_sockbuf\<close> waits for the socket buffer and then reports a dropped flow;
  with one thread only the report is left.
\<close>

definition cfil_acquire_sockbuf :: "world \<Rightarrow> errno" where
  "cfil_acquire_sockbuf w = (if cfi_flags (cfil_info w) AND CFIF_DROP \<noteq> 0 then EPIPE else 0)"

text \<open>"Record updated offsets for this content filter": the new buffer and \<open>updated\<close>.\<close>

definition record_offsets :: "cfe_buf \<Rightarrow> u64 \<Rightarrow> u64 \<Rightarrow> cfe_buf \<times> bool" where
  "record_offsets b pass_offset peek_offset =
     (let (b1, updated1) =
            (if pass_offset > cfe_pass_offset b
             then (let b' = b\<lparr>cfe_pass_offset := pass_offset\<rparr>
                   in (if cfe_peek_offset b' < cfe_pass_offset b'
                       then b'\<lparr>cfe_peek_offset := cfe_pass_offset b'\<rparr> else b'), True)
             else (b, False))
      in if peek_offset > cfe_pass_offset b1 \<and> peek_offset > cfe_peek_offset b1
         then (b1\<lparr>cfe_peek_offset := peek_offset\<rparr>, True)
         else (b1, updated1))"

text \<open>
  The label \<open>done\<close> of \<open>cfil_update_data_offsets\<close> when \<open>entry\<close> is set: the entry is
  detached once both directions pass everything, or once the socket waits in close and
  both control queues are empty.
\<close>

definition update_offsets_done :: "world \<Rightarrow> nat \<Rightarrow> errno \<Rightarrow> (world \<times> errno) option" where
  "update_offsets_done w kcunit error =
     (let entry = entry_at w kcunit;
          w1 = (if (cfe_pass_offset (cfe_snd entry) = CFM_MAX_OFFSET \<and>
                    cfe_pass_offset (cfe_rcv entry) = CFM_MAX_OFFSET) \<or>
                   (cfi_flags (cfil_info w) AND CFIF_CLOSE_WAIT \<noteq> 0 \<and>
                    cfil_queue_empty (cfe_ctl_q (cfe_snd entry)) \<and>
                    cfil_queue_empty (cfe_ctl_q (cfe_rcv entry)))
                then
                  (let w' = map_entry (\<lambda>e. e\<lparr>cfe_flags := cfe_flags e OR CFEF_CFIL_DETACHED\<rparr>)
                              kcunit w
                   in if cfi_flags (cfil_info w') AND CFIF_CLOSE_WAIT \<noteq> 0 \<and>
                         \<not> cfil_filters_attached w'
                      then emit EvWakeup w' else w')
                else w)
      in do { _ \<leftarrow> CFIL_INFO_VERIFY w1; Some (w1, error) })"

definition cfil_update_data_offsets ::
    "world \<Rightarrow> nat \<Rightarrow> bool \<Rightarrow> u64 \<Rightarrow> u64 \<Rightarrow> (world \<times> errno) option" where
  "cfil_update_data_offsets w kcunit outgoing pass_offset peek_offset =
     (if cfi_flags (cfil_info w) AND CFIF_DROP \<noteq> 0
      then do { _ \<leftarrow> CFIL_INFO_VERIFY w; Some (w, EPIPE) }
      else
        let (b, updated) = record_offsets (entrybuf w kcunit outgoing) pass_offset peek_offset;
            w1 = map_entrybuf (\<lambda>_. b) kcunit outgoing w
        in if \<not> updated then update_offsets_done w1 kcunit 0
           else do {
             (w2, error) \<leftarrow> cfil_data_service_ctl_q w1 kcunit outgoing;
             update_offsets_done w2 kcunit (if error \<noteq> 0 then error else EJUSTRETURN)
           })"

text \<open>
  A sequence of verdicts applied to one entry and direction, one call of
  \<open>cfil_update_data_offsets\<close> for each pair of a pass and a peek offset: the state and the
  error after each call.
\<close>

fun update_data_offsets_seq ::
  "world \<Rightarrow> nat \<Rightarrow> bool \<Rightarrow> (u64 \<times> u64) list \<Rightarrow> (world \<times> errno) list option"
where
  "update_data_offsets_seq w kcunit outgoing [] = Some []"
| "update_data_offsets_seq w kcunit outgoing (v # vs) = do {
     (w1, error) \<leftarrow> cfil_update_data_offsets w kcunit outgoing (fst v) (snd v);
     rs \<leftarrow> update_data_offsets_seq w1 kcunit outgoing vs;
     Some ((w1, error) # rs)
   }"

text \<open>
  \<open>cfil_set_socket_pass_offset\<close>: with no data pending, the pass offset of the flow
  becomes the smallest pass offset of the attached entries (0 with none attached).
\<close>

definition min_pass_step :: "world \<Rightarrow> bool \<Rightarrow> nat \<Rightarrow> u64 \<times> bool \<Rightarrow> u64 \<times> bool" where
  "min_pass_step w outgoing kcunit acc =
     (case acc of (pass_offset, first) \<Rightarrow>
        if cfe_filter (entry_at w kcunit) = None then (pass_offset, first)
        else if first \<or> cfe_pass_offset (entrybuf w kcunit outgoing) < pass_offset
          then (cfe_pass_offset (entrybuf w kcunit outgoing), False)
          else (pass_offset, first))"

definition cfil_set_socket_pass_offset :: "world \<Rightarrow> bool \<Rightarrow> world" where
  "cfil_set_socket_pass_offset w outgoing =
     (if cfi_pending_last (cfi_buf_of w outgoing) - cfi_pending_first (cfi_buf_of w outgoing) = 0
      then map_cfi_buf
             (\<lambda>b. b\<lparr>cfi_pass_offset := fst (fold (min_pass_step w outgoing) kcunits (0, True))\<rparr>)
             outgoing w
      else w)"

definition cfil_action_data_pass ::
    "world \<Rightarrow> nat \<Rightarrow> bool \<Rightarrow> u64 \<Rightarrow> u64 \<Rightarrow> (world \<times> errno) option" where
  "cfil_action_data_pass w kcunit outgoing pass_offset peek_offset =
     (if cfil_acquire_sockbuf w \<noteq> 0
      then do { _ \<leftarrow> CFIL_INFO_VERIFY w; Some (w, cfil_acquire_sockbuf w) }
      else do {
        (w1, error) \<leftarrow> cfil_update_data_offsets w kcunit outgoing pass_offset peek_offset;
        (w2, _) \<leftarrow> cfil_service_inject_queue w1 outgoing;
        let w3 = cfil_set_socket_pass_offset w2 outgoing;
        _ \<leftarrow> CFIL_INFO_VERIFY w3;
        Some (w3, error)
      })"

text \<open>
  \<open>cfil_flush_queues\<close>: every queue of both directions is drained. What
  \<open>cfil_queue_drain\<close> returns is added up in \<open>drained\<close> and only feeds the statistics.
\<close>

definition drain_entry :: "bool \<Rightarrow> nat \<Rightarrow> world \<Rightarrow> world" where
  "drain_entry outgoing kcunit w =
     map_entrybuf (\<lambda>b. b\<lparr>cfe_ctl_q := fst (cfil_queue_drain (cfe_ctl_q b)),
                          cfe_pending_q := fst (cfil_queue_drain (cfe_pending_q b))\<rparr>)
       kcunit outgoing w"

definition flush_direction :: "bool \<Rightarrow> world \<Rightarrow> world" where
  "flush_direction outgoing w =
     map_cfi_buf (\<lambda>b. b\<lparr>cfi_inject_q := fst (cfil_queue_drain (cfi_inject_q b))\<rparr>) outgoing
       (fold (drain_entry outgoing) kcunits w)"

definition cfil_flush_queues :: "world \<Rightarrow> world option" where
  "cfil_flush_queues w =
     (let w1 = (if \<not> so_content_filter (so w) then w
                else flush_direction False (flush_direction True w))
      in do { _ \<leftarrow> CFIL_INFO_VERIFY w1; Some w1 })"

text \<open>
  \<open>cfil_action_drop\<close>. The external calls are \<open>sosetdefunct\<close> and, when it succeeds,
  \<open>sodefunct\<close>, which marks the socket defunct.
\<close>

definition cfil_action_drop :: "world \<Rightarrow> nat \<Rightarrow> (world \<times> errno) option" where
  "cfil_action_drop w kcunit =
     (if \<not> so_content_filter (so w) then Some (w, 0)
      else if cfe_filter (entry_at w kcunit) = None then Some (w, 0)
      else
        let w1 = map_cfi_flags (\<lambda>f. f OR CFIF_DROP) w;
            (w2, error) =
              (if so_flow_db (so w1) = None
               then (let (r1, wa) = ext_call w1 in
                     if r1 \<noteq> 0 then (wa, r1)
                     else (let (r2, wb) = ext_call wa in
                           if r2 \<noteq> 0 then (wb, r2)
                           else (emit EvDefunct (wb\<lparr>so := (so wb)\<lparr>so_defunct := True\<rparr>\<rparr>), r2)))
               else (w1, 0));
            w3 = map_entry (\<lambda>e. e\<lparr>cfe_flags := cfe_flags e OR CFEF_CFIL_DETACHED\<rparr>) kcunit w2
        in do {
          w4 \<leftarrow> cfil_flush_queues w3;
          let w5 = (if cfi_flags (cfil_info w4) AND CFIF_CLOSE_WAIT \<noteq> 0 \<and>
                       \<not> cfil_filters_attached w4
                    then emit EvWakeup w4 else w4);
          Some (w5, error)
        })"

subsection \<open>Submitting data\<close>

text \<open>\<open>cfil_update_entry_offsets\<close>, the bookkeeping of the fast path.\<close>

definition entry_offsets_step :: "u32 \<Rightarrow> cfe_buf \<Rightarrow> cfe_buf" where
  "entry_offsets_step datalen b =
     (let ctl_start = q_start (cfe_ctl_q b) + ucast datalen;
          pass = (if cfe_pass_offset b < ctl_start then ctl_start else cfe_pass_offset b);
          peek = (if cfe_peek_offset b < pass then pass else cfe_peek_offset b)
      in b\<lparr>cfe_ctl_q := (cfe_ctl_q b)\<lparr>q_start := ctl_start,
                                       q_end := q_end (cfe_ctl_q b) + ucast datalen\<rparr>,
            cfe_pass_offset := pass,
            cfe_peeked := ctl_start,
            cfe_peek_offset := peek,
            cfe_pending_q := (cfe_pending_q b)\<lparr>
               q_start := q_start (cfe_pending_q b) + ucast datalen,
               q_end := q_end (cfe_pending_q b) + ucast datalen\<rparr>\<rparr>)"

definition update_entry_offsets_unit :: "bool \<Rightarrow> u32 \<Rightarrow> nat \<Rightarrow> world \<Rightarrow> world" where
  "update_entry_offsets_unit outgoing datalen kcunit w =
     (if cfe_filter (entry_at w kcunit) = None then w
      else map_entrybuf (entry_offsets_step datalen) kcunit outgoing w)"

definition cfil_update_entry_offsets :: "world \<Rightarrow> bool \<Rightarrow> u32 \<Rightarrow> world option" where
  "cfil_update_entry_offsets w outgoing datalen =
     (let w1 = fold (update_entry_offsets_unit outgoing datalen) kcunits w
      in do { _ \<leftarrow> CFIL_INFO_VERIFY w1; Some w1 })"

text \<open>
  The loop of \<open>cfil_data_common\<close> over the ordered entries (the slow path). For a
  datagram socket \<open>sbconcat_mbufs\<close> (an external call) chains address and control in
  front of the data before the first attached entry sees it, and the function returns
  \<open>ENOBUFS\<close> at once when that fails: the third component of the result says so.
  \<open>chained\<close> is \<open>chain != NULL\<close>. The chain holds the same data, so the packet record
  stays as it is.
\<close>

fun data_common_walk ::
  "world \<Rightarrow> nat list \<Rightarrow> bool \<Rightarrow> mbuf \<Rightarrow> u32 \<Rightarrow> bool \<Rightarrow> errno \<Rightarrow>
   (world \<times> errno \<times> bool) option"
where
  "data_common_walk w [] outgoing data datalen chained error = Some (w, error, False)"
| "data_common_walk w (kcunit # rest) outgoing data datalen chained error =
     (if IS_ENTRY_ATTACHED w kcunit
      then
        let (r, w1) = (if so_dgram (so w) \<and> \<not> chained then ext_call w else (0, w)) in
        if r \<noteq> 0 then Some (w1, ENOBUFS, True)
        else do {
          (w2, error1) \<leftarrow> data_filter w1 kcunit rest outgoing data datalen;
          if error1 \<noteq> 0 then Some (w2, error1, False)
          else data_common_walk w2 rest outgoing data datalen (chained \<or> so_dgram (so w)) error1
        }
      else if error \<noteq> 0 then Some (w, error, False)
      else data_common_walk w rest outgoing data datalen chained error)"

text \<open>
  \<open>cfil_data_common\<close>, for a flow that has its \<open>cfil_info\<close>. Stripping the IP header of a
  raw datagram on the fast path changes the packet handed back to the socket, not the
  state of the filter, and is left out.
\<close>

definition cfil_data_common :: "world \<Rightarrow> bool \<Rightarrow> mbuf \<Rightarrow> (world \<times> errno) option" where
  "cfil_data_common w outgoing data =
     (if cfi_flags (cfil_info w) AND CFIF_DROP \<noteq> 0
      then do { _ \<leftarrow> CFIL_INFO_VERIFY w; Some (w, EPIPE) }
      else
        let datalen = cfil_data_length data; mbcnt = m_mbcnt data; mbnum = m_mbnum data in
        if datalen = 0 then do { _ \<leftarrow> CFIL_INFO_VERIFY w; Some (w, 0) }
        else
          let w1 = (if outgoing
                    then w\<lparr>cfil_info := (cfil_info w)\<lparr>cfi_byte_outbound_count :=
                           cfi_byte_outbound_count (cfil_info w) + ucast datalen\<rparr>\<rparr>
                    else w\<lparr>cfil_info := (cfil_info w)\<lparr>cfi_byte_inbound_count :=
                           cfi_byte_inbound_count (cfil_info w) + ucast datalen\<rparr>\<rparr>);
              w2 = map_cfi_buf (\<lambda>b. b\<lparr>cfi_pending_last := cfi_pending_last b + ucast datalen,
                                        cfi_pending_mbcnt := cfi_pending_mbcnt b + mbcnt,
                                        cfi_pending_mbnum := cfi_pending_mbnum b + mbnum\<rparr>)
                     outgoing w1
          in
          if so_dgram (so w2) \<and>
             (cfi_pending_mbnum (cfi_buf_of w2 outgoing) > cfil_udp_gc_mbuf_num_max w2 \<or>
              cfi_pending_mbcnt (cfi_buf_of w2 outgoing) > cfil_udp_gc_mbuf_cnt_max w2)
          then Some (map_cfi_buf (\<lambda>b. b\<lparr>cfi_tail_drop_cnt := cfi_tail_drop_cnt b + 1,
                                          cfi_pending_mbcnt := cfi_pending_mbcnt b - mbcnt,
                                          cfi_pending_mbnum := cfi_pending_mbnum b - mbnum\<rparr>)
                       outgoing w2, EPIPE)
          else do {
            _ \<leftarrow> VERIFY (cfil_info_buf_verify (cfil_debug w2) (cfi_buf_of w2 outgoing));
            (w3, error, returned) \<leftarrow>
              (if cfi_pending_last (cfi_buf_of w2 outgoing) \<le> cfi_pass_offset (cfi_buf_of w2 outgoing)
               then do { w' \<leftarrow> cfil_update_entry_offsets w2 outgoing datalen; Some (w', 0, False) }
               else data_common_walk w2 (cfi_ordered_entries (cfil_info w2)) outgoing data datalen
                      False 0);
            if returned then Some (w3, error)
            else do {
              w4 \<leftarrow> (if error = 0
                      then (let w' = map_cfi_buf
                                  (\<lambda>b. b\<lparr>cfi_pending_first := cfi_pending_first b + ucast datalen,
                                         cfi_pending_mbcnt := cfi_pending_mbcnt b - mbcnt,
                                         cfi_pending_mbnum := cfi_pending_mbnum b - mbnum\<rparr>)
                                  outgoing w3
                            in do {
                              _ \<leftarrow> VERIFY (cfil_info_buf_verify (cfil_debug w')
                                             (cfi_buf_of w' outgoing));
                              Some w'
                            })
                      else Some w3);
              _ \<leftarrow> CFIL_INFO_VERIFY w4;
              Some (w4, error)
            }
          })"

subsection \<open>The reaper's buffer check\<close>

definition cfil_info_buffer_threshold_exceeded :: "cfil_info \<Rightarrow> bool" where
  "cfil_info_buffer_threshold_exceeded info \<longleftrightarrow>
     cfi_tail_drop_cnt (cfi_snd info) \<noteq> 0 \<or> cfi_tail_drop_cnt (cfi_rcv info) \<noteq> 0"

text \<open>
  \<open>cfil_info_action_timed_out\<close> compares the clock with the time stamp
  \<open>cfe_last_action\<close> of each attached entry that has not yet passed everything queued.
  The clock and the time stamps are not part of the state here: \<open>since_last_action k\<close>
  stands for \<open>diff_time.tv_sec\<close> of the entry of unit \<open>k\<close>.
\<close>

abbreviation UDP_FLOW_GC_ACTION_TO :: int where "UDP_FLOW_GC_ACTION_TO \<equiv> 10"

definition cfil_info_action_timed_out :: "cfil_info \<Rightarrow> (nat \<Rightarrow> int) \<Rightarrow> int \<Rightarrow> bool" where
  "cfil_info_action_timed_out info since_last_action timeout \<longleftrightarrow>
     (cfi_pending_last (cfi_snd info) > cfi_pass_offset (cfi_snd info) \<or>
      cfi_pending_last (cfi_rcv info) > cfi_pass_offset (cfi_rcv info)) \<and>
     list_ex (\<lambda>kcunit.
        cfe_filter (cfi_entries info (kcunit - 1)) \<noteq> None \<and>
        (cfi_pending_last (cfi_snd info) > cfe_pass_offset (cfe_snd (cfi_entries info (kcunit - 1))) \<or>
         cfi_pending_last (cfi_rcv info) > cfe_pass_offset (cfe_rcv (cfi_entries info (kcunit - 1)))) \<and>
        since_last_action kcunit \<ge> timeout)
       [1..<Suc MAX_CONTENT_FILTER]"

text \<open>
  \<open>cfil_dgram_gc_needed\<close> is the function the flow reaper asks whether a datagram flow is
  to be torn down (\<open>cfil_dgram_gc_perform\<close> follows a \<open>true\<close>). \<open>so_present\<close> is
  \<open>so != NULL\<close>; \<open>feat_ctxt\<close> is \<open>hash_entry->soflow_feat_ctxt\<close>, \<open>None\<close> also when
  there is no hash entry.
\<close>

definition cfil_dgram_gc_needed :: "bool \<Rightarrow> cfil_info option \<Rightarrow> (nat \<Rightarrow> int) \<Rightarrow> bool" where
  "cfil_dgram_gc_needed so_present feat_ctxt since_last_action =
     (case feat_ctxt of
        None \<Rightarrow> False
      | Some info \<Rightarrow>
          if \<not> so_present then False
          else cfil_info_action_timed_out info since_last_action UDP_FLOW_GC_ACTION_TO \<or>
               cfil_info_buffer_threshold_exceeded info)"

subsection \<open>The flow-control lift\<close>

text \<open>
  \<open>cfil_ctl_rcvd\<close> runs on the whole kernel: the registry \<open>content_filters\<close> (the array
  of filter pointers, indexed from 0) and the flows by the address of their
  \<open>cfil_info\<close>, each with the socket \<open>cfi_so\<close> points to.
\<close>

record flow =
  cfi_so :: "socket option"
  flow_info :: cfil_info

record kernel = globals +
  content_filters :: "nat \<Rightarrow> nat option"
  flows :: "nat \<Rightarrow> flow"

definition entry_of_ptr :: "kernel \<Rightarrow> nat \<times> nat \<Rightarrow> cfil_entry" where
  "entry_of_ptr kern p = cfi_entries (flow_info (flows kern (fst p))) (snd p - 1)"

definition verify_content_filter :: "kernel \<Rightarrow> nat \<Rightarrow> bool" where
  "verify_content_filter kern cfc \<longleftrightarrow>
     (\<forall>p \<in> set (cf_sock_entries (filters kern cfc)). cfe_filter (entry_of_ptr kern p) = Some cfc) \<and>
     (of_nat (length (cf_sock_entries (filters kern cfc))) :: u32) = cf_sock_count (filters kern cfc)"

text \<open>
  "Find an entry that is flow controlled": the \<open>TAILQ_FOREACH\<close> of \<open>cfil_ctl_rcvd\<close>. The
  result is the loop variable \<open>entry\<close> after the loop. The body holds two \<open>continue\<close>
  and no \<open>break\<close>: whatever the entry, the loop goes on to the next one.
\<close>

fun tailq_foreach_flow_controlled :: "kernel \<Rightarrow> (nat \<times> nat) list \<Rightarrow> (nat \<times> nat) option" where
  "tailq_foreach_flow_controlled kern [] = None"
| "tailq_foreach_flow_controlled kern (p # ps) =
     (if (case cfe_cfil_info (entry_of_ptr kern p) of
            None \<Rightarrow> True | Some a \<Rightarrow> cfi_so (flows kern a) = None)
      then tailq_foreach_flow_controlled kern ps
      else if cfe_flags (entry_of_ptr kern p) AND CFEF_FLOW_CONTROLLED = 0
      then tailq_foreach_flow_controlled kern ps
      else tailq_foreach_flow_controlled kern ps)"

definition focus :: "kernel \<Rightarrow> socket \<Rightarrow> cfil_info \<Rightarrow> world" where
  "focus kern s info =
     \<lparr>filters = filters kern, cfil_debug = cfil_debug kern,
      cfil_udp_gc_mbuf_num_max = cfil_udp_gc_mbuf_num_max kern,
      cfil_udp_gc_mbuf_cnt_max = cfil_udp_gc_mbuf_cnt_max kern,
      ext_results = ext_results kern, ext_calls = ext_calls kern, events = events kern,
      so = s, cfil_info = info\<rparr>"

definition unfocus :: "world \<Rightarrow> nat \<Rightarrow> kernel \<Rightarrow> kernel" where
  "unfocus w a kern =
     kern\<lparr>filters := filters w, ext_calls := ext_calls w, events := events w,
          flows := (flows kern)(a := \<lparr>cfi_so = Some (so w), flow_info = cfil_info w\<rparr>)\<rparr>"

text \<open>The \<open>do { ... } while (0)\<close> of the loop body: both directions of the entry.\<close>

definition lift_service :: "world \<Rightarrow> nat \<Rightarrow> world option" where
  "lift_service w kcunit =
     (if cfil_acquire_sockbuf w \<noteq> 0 then Some w
      else do {
        (w1, error) \<leftarrow> cfil_data_service_ctl_q w kcunit True;
        if error \<noteq> 0 then Some w1
        else if cfil_acquire_sockbuf w1 \<noteq> 0 then Some w1
        else do { (w2, _) \<leftarrow> cfil_data_service_ctl_q w1 kcunit False; Some w2 }
      })"

text \<open>
  The loop \<open>while ((cfc->cf_flags & CFF_FLOW_CONTROLLED) == 0)\<close>. The external call is
  \<open>os_ref_retain_try\<close>. Reading \<open>cfi_so\<close> through a \<open>NULL\<close> \<open>cfe_cfil_info\<close>, or locking
  a \<open>NULL\<close> socket, is a panic.
\<close>

function flow_lift_loop :: "kernel \<Rightarrow> nat \<Rightarrow> nat \<Rightarrow> kernel option" where
  "flow_lift_loop kern kcunit cfc =
     (if cf_flags (filters kern cfc) AND CFF_FLOW_CONTROLLED \<noteq> 0 then Some kern
      else do {
        _ \<leftarrow> VERIFY (verify_content_filter kern cfc);
        (case tailq_foreach_flow_controlled kern (cf_sock_entries (filters kern cfc)) of
           None \<Rightarrow> Some kern
         | Some entry \<Rightarrow>
            (case cfe_cfil_info (entry_of_ptr kern entry) of
               None \<Rightarrow> None
             | Some a \<Rightarrow>
                let (r, kern1) = ext_call kern in
                if r \<noteq> 0 then Some kern1
                else (case cfi_so (flows kern1 a) of
                        None \<Rightarrow> None
                      | Some s \<Rightarrow> do {
                          w \<leftarrow> lift_service (focus kern1 s (flow_info (flows kern1 a))) kcunit;
                          flow_lift_loop (unfocus w a kern1) kcunit cfc
                        })))
      })"
  by pat_completeness auto
termination
proof (relation "{}")
  show "wf {}" by simp
next
  fix kern :: kernel and cfc :: nat and entry :: "nat \<times> nat"
  assume found: "tailq_foreach_flow_controlled kern (cf_sock_entries (filters kern cfc)) = Some entry"
  have "tailq_foreach_flow_controlled kern ps = None" for ps
    by (induction ps) auto
  with found show "\<And>a b. (a, b) \<in> {}" by simp
qed

definition cfil_ctl_rcvd :: "kernel \<Rightarrow> nat \<Rightarrow> nat option \<Rightarrow> kernel option" where
  "cfil_ctl_rcvd kern kcunit unitinfo =
     (case unitinfo of
        None \<Rightarrow> Some kern
      | Some cfc \<Rightarrow>
         if kcunit > MAX_CONTENT_FILTER then Some kern
         else if Some cfc \<noteq> content_filters kern (kcunit - 1) then Some kern
         else
           let kern1 = (if cf_flags (filters kern cfc) AND CFF_FLOW_CONTROLLED \<noteq> 0
                        then map_filter (\<lambda>f. f\<lparr>cf_flags := cf_flags f AND NOT CFF_FLOW_CONTROLLED\<rparr>)
                               cfc kern
                        else kern)
           in flow_lift_loop kern1 kcunit cfc)"

subsection \<open>A new flow, and states to evaluate on\<close>

text \<open>
  \<open>cfil_info_alloc\<close>: the \<open>cfil_info\<close> is zeroed, its queues and entries are
  initialised; \<open>a\<close> is its address. \<open>attach_entry\<close> is what \<open>cfil_info_attach_unit\<close> does
  to the entry of a unit whose filter \<open>cfc\<close> takes the flow, the ordered list apart.
\<close>

definition cfe_buf_init :: cfe_buf where
  "cfe_buf_init = \<lparr>cfe_pending_q = cfil_queue_init, cfe_ctl_q = cfil_queue_init,
                    cfe_pass_offset = 0, cfe_peek_offset = 0, cfe_peeked = 0\<rparr>"

definition cfi_buf_init :: cfi_buf where
  "cfi_buf_init = \<lparr>cfi_pending_first = 0, cfi_pending_last = 0, cfi_pending_mbcnt = 0,
                    cfi_pending_mbnum = 0, cfi_tail_drop_cnt = 0, cfi_pass_offset = 0,
                    cfi_inject_q = cfil_queue_init\<rparr>"

definition cfil_info_alloc :: "nat \<Rightarrow> cfil_info" where
  "cfil_info_alloc a =
     \<lparr>cfi_flags = 0, cfi_byte_inbound_count = 0, cfi_byte_outbound_count = 0,
      cfi_snd = cfi_buf_init, cfi_rcv = cfi_buf_init,
      cfi_entries = (\<lambda>i. \<lparr>cfe_filter = None, cfe_cfil_info = Some a, cfe_flags = 0,
                            cfe_snd = cfe_buf_init, cfe_rcv = cfe_buf_init\<rparr>),
      cfi_ordered_entries = []\<rparr>"

definition attach_entry :: "nat \<Rightarrow> cfil_entry \<Rightarrow> cfil_entry" where
  "attach_entry cfc e = e\<lparr>cfe_filter := Some cfc, cfe_flags := cfe_flags e OR CFEF_CFIL_ATTACHED\<rparr>"

text \<open>
  The states the closed theorems below are evaluated on. The filter of unit \<open>k\<close> is the
  object at address \<open>k\<close>; the gc limits are \<open>UDP_FLOW_GC_MBUF_NUM_MAX\<close> and
  \<open>UDP_FLOW_GC_MBUF_CNT_MAX\<close>; every external call succeeds.
\<close>

definition pkt :: "u32 \<Rightarrow> mbuf" where
  "pkt n = \<lparr>m_pktlen = n, m_mbcnt = 256, m_mbnum = 1\<rparr>"

definition ex_stream_so :: socket where
  "ex_stream_so = \<lparr>so_content_filter = True, so_dgram = False, so_defunct = False,
                    so_proto_ok = True, so_loopback_faddr = False, so_flow_db = None\<rparr>"

definition ex_dgram_so :: socket where
  "ex_dgram_so = \<lparr>so_content_filter = True, so_dgram = True, so_defunct = False,
                   so_proto_ok = True, so_loopback_faddr = False, so_flow_db = Some []\<rparr>"

definition ex_world :: "socket \<Rightarrow> cfil_info \<Rightarrow> world" where
  "ex_world s info =
     \<lparr>filters = (\<lambda>k. \<lparr>cf_kcunit = k, cf_flags = 0, cf_sock_count = 1,
                        cf_sock_entries = [(0, k)]\<rparr>),
      cfil_debug = True,
      cfil_udp_gc_mbuf_num_max = 1024, cfil_udp_gc_mbuf_cnt_max = 0x200000,
      ext_results = (\<lambda>n. 0), ext_calls = 0, events = [],
      so = s, cfil_info = info\<rparr>"

text \<open>A datagram flow whose outgoing direction already holds 1024 mbufs.\<close>

definition ex_full_dgram :: world where
  "ex_full_dgram =
     map_cfi_buf (\<lambda>b. b\<lparr>cfi_pending_mbnum := 1024\<rparr>) True (ex_world ex_dgram_so (cfil_info_alloc 0))"

text \<open>
  The flow record with the entries of the units \<open>ks\<close> attached, in this order on the
  ordered list; the attach event has gone to each filter and each has asked for data.
\<close>

definition ex_attached :: "nat list \<Rightarrow> cfil_info" where
  "ex_attached ks =
     (cfil_info_alloc 0)\<lparr>
       cfi_entries := (\<lambda>i. if Suc i \<in> set ks
          then (attach_entry (Suc i) (cfi_entries (cfil_info_alloc 0) i))\<lparr>cfe_flags :=
                  CFEF_CFIL_ATTACHED OR CFEF_SENT_SOCK_ATTACHED OR CFEF_DATA_START\<rparr>
          else cfi_entries (cfil_info_alloc 0) i),
       cfi_ordered_entries := ks\<rparr>"

text \<open>
  A stream flow with the filter of unit 1 attached: 100 outgoing bytes have passed, the
  filter has let them pass and asked to see up to offset 200, and holds a packet of 50
  bytes, offsets 100 to 150, in its control queue.
\<close>

definition ex_held :: world where
  "ex_held =
     map_cfi_buf (\<lambda>b. b\<lparr>cfi_pending_first := 100, cfi_pending_last := 150,
                          cfi_pending_mbcnt := 256, cfi_pending_mbnum := 1\<rparr>) True
       (map_entrybuf (\<lambda>b. \<lparr>cfe_pending_q = \<lparr>q_start = 100, q_end = 100, q_mq = []\<rparr>,
                            cfe_ctl_q = \<lparr>q_start = 100, q_end = 150, q_mq = [pkt 50]\<rparr>,
                            cfe_pass_offset = 100, cfe_peek_offset = 200, cfe_peeked = 150\<rparr>)
          1 True (ex_world ex_stream_so (ex_attached [1])))"

text \<open>
  A stream flow with the filter of unit 1 attached and nothing submitted yet: the filter
  has let the first 1000 outgoing bytes pass, and with no data pending that is the pass
  offset of the flow as well.
\<close>

definition ex_passed :: world where
  "ex_passed =
     map_cfi_buf (\<lambda>b. b\<lparr>cfi_pass_offset := 1000\<rparr>) True
       (map_entrybuf (\<lambda>b. b\<lparr>cfe_pass_offset := 1000, cfe_peek_offset := 1000\<rparr>) 1 True
          (ex_world ex_stream_so (ex_attached [1])))"

text \<open>
  A stream flow with the filters of units 1 and 2 attached, on a socket that is being
  closed: \<open>cfil_sock_close_wait\<close> has set \<open>CFIF_CLOSE_WAIT\<close> and sleeps on the flow.
\<close>

definition ex_closing :: world where
  "ex_closing =
     map_cfi_flags (\<lambda>f. f OR CFIF_CLOSE_WAIT) (ex_world ex_stream_so (ex_attached [1, 2]))"

text \<open>The flow \<open>ex_held\<close>, with its one filter, on a socket that is being closed.\<close>

definition ex_held_closing :: world where
  "ex_held_closing = map_cfi_flags (\<lambda>f. f OR CFIF_CLOSE_WAIT) ex_held"

text \<open>
  A kernel whose filters are all flow controlled. Every flow is as \<open>ex_held\<close>, but the
  50 bytes in the control queue of the entry of unit 1 have not been delivered to the
  filter (\<open>cfe_peeked\<close> is at their start, the peek offset beyond their end): the
  delivery failed with \<open>ENOBUFS\<close>, which marked the entry and the filter flow controlled.
\<close>

definition ex_stalled_info :: cfil_info where
  "ex_stalled_info =
     cfil_info (map_entry (\<lambda>e. e\<lparr>cfe_flags := cfe_flags e OR CFEF_FLOW_CONTROLLED\<rparr>) 1
                  (map_entrybuf (\<lambda>b. b\<lparr>cfe_peeked := 100\<rparr>) 1 True ex_held))"

definition ex_kernel :: kernel where
  "ex_kernel =
     \<lparr>filters = (\<lambda>k. \<lparr>cf_kcunit = k, cf_flags = CFF_FLOW_CONTROLLED, cf_sock_count = 1,
                        cf_sock_entries = [(0, k)]\<rparr>),
      cfil_debug = True,
      cfil_udp_gc_mbuf_num_max = 1024, cfil_udp_gc_mbuf_cnt_max = 0x200000,
      ext_results = (\<lambda>n. 0), ext_calls = 0, events = [],
      content_filters = (\<lambda>i. Some (Suc i)),
      flows = (\<lambda>a. \<lparr>cfi_so = Some ex_stream_so, flow_info = ex_stalled_info\<rparr>)\<rparr>"

subsection \<open>What the servicing of the queues leaves alone\<close>

text \<open>
  \<open>dv\<close> is the part of the state that holds the data path: the queues, the offsets and
  the pending windows, the ordered list and the filter pointers, the socket and the
  globals that are only read. Flags of entries, flow and filters, the events and the
  count of external calls are outside it. \<open>svc_frame S outgoing w w'\<close> says what a
  servicing of direction \<open>outgoing\<close> that works on the entries of the units in \<open>S\<close>
  leaves as it was.
\<close>

definition dv :: "world \<Rightarrow> bool \<times> socket \<times> nat list \<times> (nat \<Rightarrow> nat option \<times> cfe_buf \<times> cfe_buf) \<times> cfi_buf \<times> cfi_buf \<times> u32 \<times> u32 \<times> (nat \<Rightarrow> errno) \<times> u64 \<times> u64" where
  "dv w = (cfil_debug w, so w, cfi_ordered_entries (cfil_info w),
           (\<lambda>i. (cfe_filter (cfi_entries (cfil_info w) i), cfe_snd (cfi_entries (cfil_info w) i),
                  cfe_rcv (cfi_entries (cfil_info w) i))),
           cfi_snd (cfil_info w), cfi_rcv (cfil_info w),
           cfil_udp_gc_mbuf_num_max w, cfil_udp_gc_mbuf_cnt_max w, ext_results w,
           cfi_byte_inbound_count (cfil_info w), cfi_byte_outbound_count (cfil_info w))"

definition svc_frame :: "nat set \<Rightarrow> bool \<Rightarrow> world \<Rightarrow> world \<Rightarrow> bool" where
  "svc_frame S outgoing w w' \<longleftrightarrow>
     cfil_debug w' = cfil_debug w \<and> so w' = so w \<and> ext_results w' = ext_results w \<and>
     cfil_udp_gc_mbuf_num_max w' = cfil_udp_gc_mbuf_num_max w \<and>
     cfil_udp_gc_mbuf_cnt_max w' = cfil_udp_gc_mbuf_cnt_max w \<and>
     cfi_ordered_entries (cfil_info w') = cfi_ordered_entries (cfil_info w) \<and>
     cfi_byte_inbound_count (cfil_info w') = cfi_byte_inbound_count (cfil_info w) \<and>
     cfi_byte_outbound_count (cfil_info w') = cfi_byte_outbound_count (cfil_info w) \<and>
     (\<forall>k. cfe_filter (entry_at w' k) = cfe_filter (entry_at w k)) \<and>
     (\<forall>k out. cfe_pass_offset (entrybuf w' k out) = cfe_pass_offset (entrybuf w k out) \<and>
              cfe_peek_offset (entrybuf w' k out) = cfe_peek_offset (entrybuf w k out)) \<and>
     (\<forall>k. entrybuf w' k (\<not> outgoing) = entrybuf w k (\<not> outgoing)) \<and>
     (\<forall>k. k - 1 \<notin> (\<lambda>j. j - 1) ` S \<longrightarrow> entrybuf w' k outgoing = entrybuf w k outgoing) \<and>
     cfi_buf_of w' (\<not> outgoing) = cfi_buf_of w (\<not> outgoing) \<and>
     cfi_pending_first (cfi_buf_of w' outgoing) = cfi_pending_first (cfi_buf_of w outgoing) \<and>
     cfi_pending_last (cfi_buf_of w' outgoing) = cfi_pending_last (cfi_buf_of w outgoing) \<and>
     cfi_pending_mbcnt (cfi_buf_of w' outgoing) = cfi_pending_mbcnt (cfi_buf_of w outgoing) \<and>
     cfi_pending_mbnum (cfi_buf_of w' outgoing) = cfi_pending_mbnum (cfi_buf_of w outgoing) \<and>
     cfi_tail_drop_cnt (cfi_buf_of w' outgoing) = cfi_tail_drop_cnt (cfi_buf_of w outgoing) \<and>
     cfi_pass_offset (cfi_buf_of w' outgoing) = cfi_pass_offset (cfi_buf_of w outgoing)"

section \<open>Properties\<close>

subsection \<open>Reading the state after an update\<close>

lemma VERIFY_Some [simp]: "VERIFY c = Some u \<longleftrightarrow> c"
  by (simp add: VERIFY_def)

lemma VERIFY_None [simp]: "VERIFY c = None \<longleftrightarrow> \<not> c"
  by (simp add: VERIFY_def)

lemma VERIFY_bind [simp]: "(VERIFY c \<bind> f) = (if c then f () else None)"
  by (simp add: VERIFY_def)

lemma entry_at_map_entry:
  "entry_at (map_entry f k w) k' = (if k' - 1 = k - 1 then f (entry_at w k') else entry_at w k')"
  by (simp add: entry_at_def map_entry_def)

lemma buf_of_buf_upd:
  "buf_of out (buf_upd out' f e) = (if out = out' then f (buf_of out e) else buf_of out e)"
  by (simp add: buf_of_def buf_upd_def)

lemma entrybuf_map_entrybuf:
  "entrybuf (map_entrybuf f k out w) k' out' =
     (if k' - 1 = k - 1 \<and> out' = out then f (entrybuf w k' out') else entrybuf w k' out')"
  by (simp add: entrybuf_def map_entrybuf_def entry_at_map_entry buf_of_buf_upd)

lemma cfi_buf_of_map_cfi_buf:
  "cfi_buf_of (map_cfi_buf f out w) out' =
     (if out' = out then f (cfi_buf_of w out') else cfi_buf_of w out')"
  by (simp add: cfi_buf_of_def map_cfi_buf_def)

subsection \<open>Draining a queue\<close>

lemma cfil_queue_drain_eq:
  "cfil_queue_drain cfq = (cfil_queue_init, q_start cfq - q_end cfq)"
  by (simp add: cfil_queue_drain_def cfil_queue_init_def)

text \<open>
  Claim C7. \<open>cfil_queue_drain\<close> leaves the queue empty with both cursors at 0, and is
  to return the number of bytes that were buffered, \<open>q_end - q_start\<close>. It computes
  \<open>q_start - q_end\<close> instead: on a well-formed queue that holds one packet of 50 bytes
  (\<open>cfil_queue_len\<close> is 50) it returns \<open>2^64 - 50\<close>.
\<close>

theorem cfil_queue_drain_returns_negated_length:
  "cfil_queue_verify \<lparr>q_start = 0, q_end = 50, q_mq = [pkt 50]\<rparr> \<and>
   cfil_queue_len \<lparr>q_start = 0, q_end = 50, q_mq = [pkt 50]\<rparr> = 50 \<and>
   cfil_queue_drain \<lparr>q_start = 0, q_end = 50, q_mq = [pkt 50]\<rparr> =
     (cfil_queue_init, 0xFFFFFFFFFFFFFFCE)"
  by (simp add: cfil_queue_verify_def queuesize_def cfil_data_length_def pkt_def
      cfil_queue_len_def cfil_queue_drain_eq)

subsection \<open>Tail drop on a datagram flow\<close>

text \<open>
  Claim C10, as stated, for every submit that would push the counters above the limits.
  A datagram without data does not reach the test of the limits: on the flow
  \<open>ex_full_dgram\<close>, whose outgoing direction holds 1024 mbufs, the submit of an empty
  packet of one mbuf would make them 1025, above the limit of 1024, and yet it returns 0
  and leaves the state as it was, the tail-drop counter at 0 and the buffer check of the
  reaper false. (A flow with the drop flag set returns \<open>EPIPE\<close> before the test as well,
  without counting a tail drop.)
\<close>

theorem tail_drop_not_for_empty_packet:
  "so_dgram (so ex_full_dgram) \<and>
   cfi_pending_mbnum (cfi_buf_of ex_full_dgram True) + m_mbnum (pkt 0) >
     cfil_udp_gc_mbuf_num_max ex_full_dgram \<and>
   cfil_data_common ex_full_dgram True (pkt 0) = Some (ex_full_dgram, 0) \<and>
   cfi_tail_drop_cnt (cfi_buf_of ex_full_dgram True) = 0 \<and>
   \<not> cfil_info_buffer_threshold_exceeded (cfil_info ex_full_dgram)"
  by (simp add: ex_full_dgram_def ex_world_def ex_dgram_so_def cfil_info_alloc_def
      cfi_buf_init_def cfe_buf_init_def cfil_queue_init_def map_cfi_buf_def cfi_buf_of_def
      pkt_def cfil_data_length_def cfil_data_common_def CFIL_INFO_VERIFY_def
      cfil_info_verify_def cfil_info_buf_verify_def cfil_entry_verify_def
      cfil_entry_buf_verify_def cfil_queue_verify_def cfil_queue_empty_def queuesize_def
      cfil_info_buffer_threshold_exceeded_def)

text \<open>
  Claim C10, amended. On a datagram-tracked flow that is not dropped, a submit of a
  packet with data whose mbufs push the pending mbuf count or the pending mbuf bytes of
  the direction above the gc limits returns \<open>EPIPE\<close>; no queue of any entry and no inject
  queue changes, the two mbuf counters are back at their values, and the tail-drop
  counter of the direction is one higher. With that counter not 0 the buffer check of
  the reaper holds, and \<open>cfil_dgram_gc_needed\<close> answers the reaper that the flow is to be
  torn down, whatever the time since the last action of the filters.
\<close>

theorem tail_drop:
  assumes dgram: "so_dgram (so w)"
    and live: "cfi_flags (cfil_info w) AND CFIF_DROP = 0"
    and len: "cfil_data_length data \<noteq> 0"
    and over: "cfi_pending_mbnum (cfi_buf_of w outgoing) + m_mbnum data > cfil_udp_gc_mbuf_num_max w \<or>
               cfi_pending_mbcnt (cfi_buf_of w outgoing) + m_mbcnt data > cfil_udp_gc_mbuf_cnt_max w"
  shows "\<exists>w'. cfil_data_common w outgoing data = Some (w', EPIPE) \<and>
           (\<forall>k out. entrybuf w' k out = entrybuf w k out) \<and>
           (\<forall>out. cfi_inject_q (cfi_buf_of w' out) = cfi_inject_q (cfi_buf_of w out)) \<and>
           cfi_pending_mbcnt (cfi_buf_of w' outgoing) = cfi_pending_mbcnt (cfi_buf_of w outgoing) \<and>
           cfi_pending_mbnum (cfi_buf_of w' outgoing) = cfi_pending_mbnum (cfi_buf_of w outgoing) \<and>
           cfi_tail_drop_cnt (cfi_buf_of w' outgoing) = cfi_tail_drop_cnt (cfi_buf_of w outgoing) + 1 \<and>
           (cfi_tail_drop_cnt (cfi_buf_of w' outgoing) \<noteq> 0 \<longrightarrow>
              cfil_info_buffer_threshold_exceeded (cfil_info w') \<and>
              (\<forall>since. cfil_dgram_gc_needed True (Some (cfil_info w')) since))"
  using assms
  by (cases outgoing)
     (auto simp: cfil_data_common_def Let_def cfi_buf_of_def map_cfi_buf_def entrybuf_def entry_at_def
        cfil_info_buffer_threshold_exceeded_def cfil_dgram_gc_needed_def)

theorem tail_drop_witness:
  "so_dgram (so ex_full_dgram) \<and>
   cfi_flags (cfil_info ex_full_dgram) AND CFIF_DROP = 0 \<and>
   cfil_data_length (pkt 100) \<noteq> 0 \<and>
   cfi_pending_mbnum (cfi_buf_of ex_full_dgram True) + m_mbnum (pkt 100) >
     cfil_udp_gc_mbuf_num_max ex_full_dgram \<and>
   (\<exists>w'. cfil_data_common ex_full_dgram True (pkt 100) = Some (w', EPIPE) \<and>
      cfi_tail_drop_cnt (cfi_buf_of w' True) = 1 \<and>
      cfil_info_buffer_threshold_exceeded (cfil_info w') \<and>
      cfil_dgram_gc_needed True (Some (cfil_info w')) (\<lambda>k. 0))"
proof -
  have h: "so_dgram (so ex_full_dgram)" "cfi_flags (cfil_info ex_full_dgram) AND CFIF_DROP = 0"
    "cfil_data_length (pkt 100) \<noteq> 0"
    "cfi_pending_mbnum (cfi_buf_of ex_full_dgram True) + m_mbnum (pkt 100) >
       cfil_udp_gc_mbuf_num_max ex_full_dgram"
    by (simp_all add: ex_full_dgram_def ex_world_def ex_dgram_so_def cfil_info_alloc_def
        cfi_buf_init_def map_cfi_buf_def cfi_buf_of_def pkt_def cfil_data_length_def)
  have z: "cfi_tail_drop_cnt (cfi_buf_of ex_full_dgram True) = 0"
    by (simp add: ex_full_dgram_def ex_world_def cfil_info_alloc_def
        cfi_buf_init_def map_cfi_buf_def cfi_buf_of_def)
  from tail_drop [OF h(1) h(2) h(3) disjI1 [OF h(4)]] z h show ?thesis
    by auto
qed

subsection \<open>Word arithmetic\<close>

lemma unat_ucast_32_64: "unat (ucast (x :: u32) :: u64) = unat x"
  by (simp add: unsigned_ucast_eq take_bit_nat_eq_self unsigned_less [of x, THEN less_trans])

lemma unat_u32_lt: "unat (x :: u32) < 2 ^ 32"
  using unsigned_less [of x] by simp

lemma unat_u64_lt: "unat (x :: u64) < 2 ^ 64"
  using unsigned_less [of x] by simp

lemma partial_copylen:
  fixes qs pass :: u64 and len :: u32
  assumes "qs < pass" "\<not> qs + ucast len \<le> pass"
  shows "(ucast (pass - qs) :: u32) < len"
proof -
  let ?a = "unat qs" and ?p = "unat pass" and ?l = "unat len"
  have a: "?a < ?p" using assms(1) by (simp add: word_less_nat_alt)
  have l: "?l < 2 ^ 32" by (rule unat_u32_lt)
  have p: "?p < 2 ^ 64" by (rule unat_u64_lt)
  have sum: "unat (qs + ucast len) = (?a + ?l) mod 2 ^ 64"
    by (simp add: unat_word_ariths unat_ucast_32_64)
  have "\<not> (?a + ?l) mod 2 ^ 64 \<le> ?p"
    using assms(2) sum by (simp add: word_le_nat_alt)
  moreover have "?a + ?l < 2 ^ 64 \<or> (?a + ?l) mod 2 ^ 64 = ?a + ?l - 2 ^ 64"
    using p a l by (simp add: mod_if)
  ultimately have lt: "?p < ?a + ?l" and nowrap: "?a + ?l < 2 ^ 64"
    using a l p by (auto simp: mod_if split: if_splits)
  have diff: "unat (pass - qs) = ?p - ?a"
    using a by (simp add: unat_sub word_le_nat_alt)
  have "unat (ucast (pass - qs) :: u32) = (?p - ?a) mod 2 ^ 32"
    by (simp add: unsigned_ucast_eq take_bit_eq_mod diff)
  also have "\<dots> = ?p - ?a" using lt l by simp
  finally show ?thesis using lt a by (simp add: word_less_nat_alt)
qed

subsection \<open>The data view and the frame of a servicing\<close>

lemma dv_eqD:
  assumes "dv w' = dv w"
  shows "cfil_debug w' = cfil_debug w" "so w' = so w"
    "cfi_ordered_entries (cfil_info w') = cfi_ordered_entries (cfil_info w)"
    "cfe_filter (entry_at w' k) = cfe_filter (entry_at w k)"
    "entrybuf w' k out = entrybuf w k out"
    "cfi_buf_of w' out = cfi_buf_of w out"
    "cfil_udp_gc_mbuf_num_max w' = cfil_udp_gc_mbuf_num_max w"
    "cfil_udp_gc_mbuf_cnt_max w' = cfil_udp_gc_mbuf_cnt_max w"
    "ext_results w' = ext_results w"
    "IS_ENTRY_ATTACHED w' k = IS_ENTRY_ATTACHED w k"
    "CFIL_INFO_VERIFY w' = CFIL_INFO_VERIFY w"
    "cfi_byte_inbound_count (cfil_info w') = cfi_byte_inbound_count (cfil_info w)"
    "cfi_byte_outbound_count (cfil_info w') = cfi_byte_outbound_count (cfil_info w)"
  using assms
  by (auto simp: dv_def entry_at_def entrybuf_def buf_of_def cfi_buf_of_def IS_ENTRY_ATTACHED_def
      CFIL_INFO_VERIFY_def cfil_info_verify_def cfil_entry_verify_def fun_eq_iff)

lemma dv_emit [simp]: "dv (emit ev w) = dv w"
  by (simp add: dv_def emit_def)

lemma dv_ext_call [simp]: "dv (snd (ext_call w)) = dv w"
  by (simp add: dv_def ext_call_def)

lemma dv_map_filter [simp]: "dv (map_filter f c w) = dv w"
  by (simp add: dv_def map_filter_def)

lemma dv_map_cfi_flags [simp]: "dv (map_cfi_flags f w) = dv w"
  by (simp add: dv_def map_cfi_flags_def)

lemma dv_map_entry_flags [simp]:
  "dv (map_entry (\<lambda>e. e\<lparr>cfe_flags := g e\<rparr>) k w) = dv w"
  by (auto simp: dv_def map_entry_def fun_eq_iff)

lemma dv_dispatch_done [simp]: "dv (fst (dispatch_done w k c e)) = dv w"
  by (simp add: dispatch_done_def)

lemma dv_attach [simp]: "dv (fst (cfil_dispatch_attach_event w k)) = dv w"
  by (simp add: cfil_dispatch_attach_event_def Let_def split_def split: option.split list.split)

lemma dv_SET_NO_CLOSE_WAIT [simp]: "dv (SET_NO_CLOSE_WAIT w) = dv w"
  by (simp add: SET_NO_CLOSE_WAIT_def)

lemma dv_disconnect [simp]: "dv (fst (cfil_dispatch_disconnect_event w k out)) = dv w"
  by (simp add: cfil_dispatch_disconnect_event_def Let_def split_def split: option.split)

lemma dv_data_event [simp]: "dv (fst (cfil_dispatch_data_event w k out d co cl)) = dv w"
  by (simp add: cfil_dispatch_data_event_def Let_def split_def split: option.split)

lemma dv_ctl_q_start [simp]: "dv (fst (ctl_q_start w k)) = dv w"
  by (simp add: ctl_q_start_def Let_def split_def)

lemma dv_ctl_q_disconnect [simp]: "dv (ctl_q_disconnect w k out) = dv w"
  by (simp add: ctl_q_disconnect_def)

lemma svc_frame_refl [simp]: "svc_frame S out w w"
  by (simp add: svc_frame_def)

lemma svc_frame_trans:
  assumes "svc_frame S out w1 w2" "svc_frame S' out w2 w3" "S \<union> S' \<subseteq> T"
  shows "svc_frame T out w1 w3"
proof -
  have "entrybuf w3 k out = entrybuf w1 k out" if "k - 1 \<notin> (\<lambda>j. j - 1) ` T" for k
  proof -
    from that assms(3) have "k - 1 \<notin> (\<lambda>j. j - 1) ` S" "k - 1 \<notin> (\<lambda>j. j - 1) ` S'" by auto
    with assms(1,2) show ?thesis by (simp add: svc_frame_def)
  qed
  with assms(1,2) show ?thesis by (simp add: svc_frame_def)
qed

lemma svc_frame_mono: "svc_frame S out w w' \<Longrightarrow> S \<subseteq> T \<Longrightarrow> svc_frame T out w w'"
  using svc_frame_trans [of S out w w' "{}" w' T] by simp

lemma svc_frame_silent:
  assumes "dv w' = dv w"
  shows "svc_frame S out w w'"
  unfolding svc_frame_def using dv_eqD [OF assms] by simp

declare ctl_q_move_loop.simps [simp del] inject_q_loop.simps [simp del] flow_lift_loop.simps [simp del]

lemma map_entry_globals [simp]:
  "cfil_debug (map_entry f k w) = cfil_debug w" "so (map_entry f k w) = so w"
  "ext_results (map_entry f k w) = ext_results w" "ext_calls (map_entry f k w) = ext_calls w"
  "events (map_entry f k w) = events w" "filters (map_entry f k w) = filters w"
  "cfil_udp_gc_mbuf_num_max (map_entry f k w) = cfil_udp_gc_mbuf_num_max w"
  "cfil_udp_gc_mbuf_cnt_max (map_entry f k w) = cfil_udp_gc_mbuf_cnt_max w"
  "cfi_ordered_entries (cfil_info (map_entry f k w)) = cfi_ordered_entries (cfil_info w)"
  "cfi_flags (cfil_info (map_entry f k w)) = cfi_flags (cfil_info w)"
  "cfi_byte_inbound_count (cfil_info (map_entry f k w)) = cfi_byte_inbound_count (cfil_info w)"
  "cfi_byte_outbound_count (cfil_info (map_entry f k w)) = cfi_byte_outbound_count (cfil_info w)"
  "cfi_buf_of (map_entry f k w) out = cfi_buf_of w out"
  by (simp_all add: map_entry_def cfi_buf_of_def)

lemma map_entrybuf_globals [simp]:
  "cfil_debug (map_entrybuf f k dir w) = cfil_debug w" "so (map_entrybuf f k dir w) = so w"
  "ext_results (map_entrybuf f k dir w) = ext_results w" "ext_calls (map_entrybuf f k dir w) = ext_calls w"
  "events (map_entrybuf f k dir w) = events w" "filters (map_entrybuf f k dir w) = filters w"
  "cfil_udp_gc_mbuf_num_max (map_entrybuf f k dir w) = cfil_udp_gc_mbuf_num_max w"
  "cfil_udp_gc_mbuf_cnt_max (map_entrybuf f k dir w) = cfil_udp_gc_mbuf_cnt_max w"
  "cfi_ordered_entries (cfil_info (map_entrybuf f k dir w)) = cfi_ordered_entries (cfil_info w)"
  "cfi_flags (cfil_info (map_entrybuf f k dir w)) = cfi_flags (cfil_info w)"
  "cfi_byte_inbound_count (cfil_info (map_entrybuf f k dir w)) = cfi_byte_inbound_count (cfil_info w)"
  "cfi_byte_outbound_count (cfil_info (map_entrybuf f k dir w)) = cfi_byte_outbound_count (cfil_info w)"
  "cfi_buf_of (map_entrybuf f k dir w) out = cfi_buf_of w out"
  "cfe_filter (entry_at (map_entrybuf f k dir w) k') = cfe_filter (entry_at w k')"
  "cfe_flags (entry_at (map_entrybuf f k dir w) k') = cfe_flags (entry_at w k')"
  by (simp_all add: map_entrybuf_def entry_at_map_entry buf_upd_def)

lemma map_cfi_buf_globals [simp]:
  "cfil_debug (map_cfi_buf f dir w) = cfil_debug w" "so (map_cfi_buf f dir w) = so w"
  "ext_results (map_cfi_buf f dir w) = ext_results w" "ext_calls (map_cfi_buf f dir w) = ext_calls w"
  "events (map_cfi_buf f dir w) = events w" "filters (map_cfi_buf f dir w) = filters w"
  "cfil_udp_gc_mbuf_num_max (map_cfi_buf f dir w) = cfil_udp_gc_mbuf_num_max w"
  "cfil_udp_gc_mbuf_cnt_max (map_cfi_buf f dir w) = cfil_udp_gc_mbuf_cnt_max w"
  "cfi_ordered_entries (cfil_info (map_cfi_buf f dir w)) = cfi_ordered_entries (cfil_info w)"
  "cfi_flags (cfil_info (map_cfi_buf f dir w)) = cfi_flags (cfil_info w)"
  "cfi_byte_inbound_count (cfil_info (map_cfi_buf f dir w)) = cfi_byte_inbound_count (cfil_info w)"
  "cfi_byte_outbound_count (cfil_info (map_cfi_buf f dir w)) = cfi_byte_outbound_count (cfil_info w)"
  "entry_at (map_cfi_buf f dir w) k = entry_at w k"
  "entrybuf (map_cfi_buf f dir w) k out = entrybuf w k out"
  by (simp_all add: map_cfi_buf_def entry_at_def entrybuf_def)

lemma entrybuf_idx: "ka - Suc 0 = k - Suc 0 \<Longrightarrow> entrybuf w ka out = entrybuf w k out"
  by (simp add: entrybuf_def entry_at_def)

lemma svc_frame_map_entrybuf:
  assumes "cfe_pass_offset (f (entrybuf w k out)) = cfe_pass_offset (entrybuf w k out)"
    and "cfe_peek_offset (f (entrybuf w k out)) = cfe_peek_offset (entrybuf w k out)"
    and "k \<in> S"
  shows "svc_frame S out w (map_entrybuf f k out w)"
  using assms by (auto simp: svc_frame_def entrybuf_map_entrybuf dest: entrybuf_idx [of _ k w out])

lemma svc_frame_inject_q:
  "svc_frame S out w (map_cfi_buf (\<lambda>b. b\<lparr>cfi_inject_q := q\<rparr>) out w)"
  by (simp add: svc_frame_def cfi_buf_of_map_cfi_buf)

lemma cfil_queue_remove_Some:
  "cfil_queue_remove dbg cfq m len = Some q \<Longrightarrow>
     q = cfq\<lparr>q_mq := remove1 m (q_mq cfq), q_start := q_start cfq + len\<rparr> \<and>
     ucast (cfil_data_length m) = len"
  by (auto simp: cfil_queue_remove_def CFIL_QUEUE_VERIFY_def Let_def split: if_splits)

lemma cfil_queue_enqueue_Some:
  "cfil_queue_enqueue dbg cfq m len = Some q \<Longrightarrow>
     q = cfq\<lparr>q_mq := q_mq cfq @ [m], q_end := q_end cfq + len\<rparr>"
  by (auto simp: cfil_queue_enqueue_def CFIL_QUEUE_VERIFY_def Let_def split: if_splits)

lemma move_loop_cases:
  assumes "ctl_q_move_loop dbg b = Some b'"
  obtains (stop) "b' = b"
  | (partial) p where "b' = b\<lparr>cfe_peeked := p\<rparr>"
  | (step) data ds p ctl pending where
      "q_mq (cfe_ctl_q b) = data # ds"
      "q_start (cfe_ctl_q b) < cfe_pass_offset b"
      "q_start (cfe_ctl_q b) + ucast (cfil_data_length data) \<le> cfe_pass_offset b"
      "cfil_queue_remove dbg (cfe_ctl_q b) data (ucast (cfil_data_length data)) = Some ctl"
      "cfil_queue_enqueue dbg (cfe_pending_q b) data (ucast (cfil_data_length data)) = Some pending"
      "ctl_q_move_loop dbg (b\<lparr>cfe_peeked := p, cfe_ctl_q := ctl, cfe_pending_q := pending\<rparr>) = Some b'"
proof (cases "q_mq (cfe_ctl_q b)")
  case Nil
  with assms have "b' = b"
    by (simp add: ctl_q_move_loop.simps [of dbg b] cfil_queue_first_def)
  then show ?thesis by (rule stop)
next
  case (Cons data ds)
  show ?thesis
  proof (cases "q_start (cfe_ctl_q b) < cfe_pass_offset b")
    case False
    with assms Cons have "b' = b"
      by (simp add: ctl_q_move_loop.simps [of dbg b] cfil_queue_first_def)
    then show ?thesis by (rule stop)
  next
    case below: True
    show ?thesis
    proof (cases "q_start (cfe_ctl_q b) + ucast (cfil_data_length data) \<le> cfe_pass_offset b")
      case False
      from partial_copylen [OF below False]
      have lt: "(ucast (cfe_pass_offset b - q_start (cfe_ctl_q b)) :: u32) < cfil_data_length data" .
      with assms Cons below False have "b' = b \<or> (\<exists>p. b' = b\<lparr>cfe_peeked := p\<rparr>)"
        by (auto simp: ctl_q_move_loop.simps [of dbg b] cfil_queue_first_def Let_def
            split: if_splits)
      moreover have "b = b\<lparr>cfe_peeked := cfe_peeked b\<rparr>" by simp
      ultimately have "\<exists>p. b' = b\<lparr>cfe_peeked := p\<rparr>" by metis
      then show ?thesis using partial by blast
    next
      case True
      have "\<exists>ctl pending p.
        cfil_queue_remove dbg (cfe_ctl_q b) data (ucast (cfil_data_length data)) = Some ctl \<and>
        cfil_queue_enqueue dbg (cfe_pending_q b) data (ucast (cfil_data_length data)) = Some pending \<and>
        ctl_q_move_loop dbg (b\<lparr>cfe_peeked := p, cfe_ctl_q := ctl, cfe_pending_q := pending\<rparr>) = Some b'"
      proof (cases "cfe_peeked b < q_start (cfe_ctl_q b) + ucast (cfil_data_length data)")
        case raise: True
        with assms Cons below True show ?thesis
          by (auto simp: ctl_q_move_loop.simps [of dbg b] cfil_queue_first_def Let_def
              split: if_splits bind_splits)
      next
        case False
        with assms Cons below True obtain ctl pending where r:
          "cfil_queue_remove dbg (cfe_ctl_q b) data (ucast (cfil_data_length data)) = Some ctl"
          "cfil_queue_enqueue dbg (cfe_pending_q b) data (ucast (cfil_data_length data)) = Some pending"
          "ctl_q_move_loop dbg (b\<lparr>cfe_ctl_q := ctl, cfe_pending_q := pending\<rparr>) = Some b'"
          by (auto simp: ctl_q_move_loop.simps [of dbg b] cfil_queue_first_def Let_def
              split: if_splits bind_splits)
        show ?thesis
          apply (rule exI [of _ ctl], rule exI [of _ pending], rule exI [of _ "cfe_peeked b"])
          using r by simp
      qed
      then obtain ctl pending p where
        "cfil_queue_remove dbg (cfe_ctl_q b) data (ucast (cfil_data_length data)) = Some ctl"
        "cfil_queue_enqueue dbg (cfe_pending_q b) data (ucast (cfil_data_length data)) = Some pending"
        "ctl_q_move_loop dbg (b\<lparr>cfe_peeked := p, cfe_ctl_q := ctl, cfe_pending_q := pending\<rparr>) = Some b'"
        by blast
      with Cons below True show ?thesis by (rule step)
    qed
  qed
qed


lemma move_loop_induct [consumes 1, case_names stop partial step]:
  assumes "ctl_q_move_loop dbg b = Some b'"
    and stop: "\<And>b. P b b"
    and partial: "\<And>b p. P b (b\<lparr>cfe_peeked := p\<rparr>)"
    and step: "\<And>b data ds p b'.
      \<lbrakk>q_mq (cfe_ctl_q b) = data # ds;
       q_start (cfe_ctl_q b) < cfe_pass_offset b;
       q_start (cfe_ctl_q b) + ucast (cfil_data_length data) \<le> cfe_pass_offset b;
       P (b\<lparr>cfe_peeked := p,
             cfe_ctl_q := (cfe_ctl_q b)\<lparr>q_mq := ds,
                q_start := q_start (cfe_ctl_q b) + ucast (cfil_data_length data)\<rparr>,
             cfe_pending_q := (cfe_pending_q b)\<lparr>q_mq := q_mq (cfe_pending_q b) @ [data],
                q_end := q_end (cfe_pending_q b) + ucast (cfil_data_length data)\<rparr>\<rparr>) b'\<rbrakk>
      \<Longrightarrow> P b b'"
  shows "P b b'"
  using assms(1)
proof (induction "length (q_mq (cfe_ctl_q b))" arbitrary: b rule: less_induct)
  case less
  from less.prems show ?case
  proof (cases rule: move_loop_cases)
    case stop
    then show ?thesis using assms(2) by simp
  next
    case (partial p)
    then show ?thesis using assms(3) by simp
  next
    case (step data ds p ctl pending)
    from cfil_queue_remove_Some [OF step(4)] step(1)
    have ctl: "ctl = (cfe_ctl_q b)\<lparr>q_mq := ds,
                q_start := q_start (cfe_ctl_q b) + ucast (cfil_data_length data)\<rparr>"
      by simp
    from cfil_queue_enqueue_Some [OF step(5)]
    have pending: "pending = (cfe_pending_q b)\<lparr>q_mq := q_mq (cfe_pending_q b) @ [data],
                q_end := q_end (cfe_pending_q b) + ucast (cfil_data_length data)\<rparr>"
      by simp
    let ?b2 = "b\<lparr>cfe_peeked := p, cfe_ctl_q := ctl, cfe_pending_q := pending\<rparr>"
    have "length (q_mq (cfe_ctl_q ?b2)) < length (q_mq (cfe_ctl_q b))"
      using step(1) ctl by simp
    from less.hyps [OF this step(6)] have "P ?b2 b'" .
    then show ?thesis
      using assms(4) [OF step(1) step(2) step(3), of p b'] ctl pending by simp
  qed
qed

lemma move_loop_offsets:
  assumes "ctl_q_move_loop dbg b = Some b'"
  shows "cfe_pass_offset b' = cfe_pass_offset b \<and> cfe_peek_offset b' = cfe_peek_offset b"
  using assms by (induction rule: move_loop_induct) simp_all

lemma svc_frame_trans_same:
  "svc_frame S out w1 w2 \<Longrightarrow> svc_frame S out w2 w3 \<Longrightarrow> svc_frame S out w1 w3"
  by (erule svc_frame_trans) auto

lemma peek_loop_cases:
  assumes "ctl_q_peek_loop w k out (data # ds) cur = Some w'"
  obtains (stop) "w' = w"
  | (skip) "ctl_q_peek_loop w k out ds (cur + ucast (cfil_data_length data)) = Some w'"
  | (fail) co cl where "w' = fst (cfil_dispatch_data_event w k out data co cl)"
  | (part) co cl where
      "w' = map_entrybuf (\<lambda>b. b\<lparr>cfe_peeked := cfe_peeked b + ucast cl\<rparr>) k out
              (fst (cfil_dispatch_data_event w k out data co cl))"
  | (more) co cl where
      "ctl_q_peek_loop
         (map_entrybuf (\<lambda>b. b\<lparr>cfe_peeked := cfe_peeked b + ucast cl\<rparr>) k out
            (fst (cfil_dispatch_data_event w k out data co cl)))
         k out ds (cur + ucast (cfil_data_length data)) = Some w'"
proof -
  define b where "b = entrybuf w k out"
  define len where "len = cfil_data_length data"
  define co :: u32 where "co = ucast (cfe_peeked b - cur)"
  define cl :: u32 where "cl = (if cur + ucast co + ucast (len - co) > cfe_peek_offset b
     then ucast (cfe_peek_offset b - (cur + ucast co)) else len - co)"
  define r where "r = cfil_dispatch_data_event w k out data co cl"
  define w2 where "w2 = map_entrybuf (\<lambda>b. b\<lparr>cfe_peeked := cfe_peeked b + ucast cl\<rparr>) k out (fst r)"
  have eq: "ctl_q_peek_loop w k out (data # ds) cur =
     (if \<not> cur < cfe_peek_offset b then Some w
      else if cur + ucast len \<le> cfe_peeked b then ctl_q_peek_loop w k out ds (cur + ucast len)
      else if co < len then
        (if len - co \<le> len then
           (if cl = 0 then Some w
            else if snd r \<noteq> 0 then Some (fst r)
            else if cl + co < len then Some w2
            else ctl_q_peek_loop w2 k out ds (cur + ucast len))
         else None)
      else None)"
    unfolding b_def len_def co_def cl_def r_def w2_def
    apply (subst ctl_q_peek_loop.simps)
    apply (simp only: Let_def split_def VERIFY_bind)
    done
  have h: "(if \<not> cur < cfe_peek_offset b then Some w
      else if cur + ucast len \<le> cfe_peeked b then ctl_q_peek_loop w k out ds (cur + ucast len)
      else if co < len then
        (if len - co \<le> len then
           (if cl = 0 then Some w
            else if snd r \<noteq> 0 then Some (fst r)
            else if cl + co < len then Some w2
            else ctl_q_peek_loop w2 k out ds (cur + ucast len))
         else None)
      else None) = Some w'"
    using assms by (simp only: eq)
  have "w' = w \<or> ctl_q_peek_loop w k out ds (cur + ucast len) = Some w'
    \<or> w' = fst r \<or> w' = w2 \<or> ctl_q_peek_loop w2 k out ds (cur + ucast len) = Some w'"
    using h
    apply (simp only: split: if_split_asm)
    apply (simp_all only: option.inject option.distinct)
    apply blast+
    done
  then consider "w' = w" | "ctl_q_peek_loop w k out ds (cur + ucast len) = Some w'"
    | "w' = fst r" | "w' = w2" | "ctl_q_peek_loop w2 k out ds (cur + ucast len) = Some w'"
    by blast
  then show thesis
  proof cases
    case 1 then show ?thesis by (rule stop)
  next
    case 2 then show ?thesis unfolding len_def by (rule skip)
  next
    case 3 then show ?thesis unfolding r_def by (rule fail)
  next
    case 4 then show ?thesis unfolding w2_def r_def by (rule part)
  next
    case 5 then show ?thesis unfolding w2_def r_def len_def by (rule more)
  qed
qed

lemma peek_loop_frame:
  "ctl_q_peek_loop w k out ds cur = Some w' \<Longrightarrow> svc_frame {k} out w w'"
proof (induction ds arbitrary: w cur)
  case Nil
  then show ?case by simp
next
  case (Cons data ds)
  have ev: "svc_frame {k} out w (fst (cfil_dispatch_data_event w k out data co cl))" for co cl
    by (rule svc_frame_silent) simp
  have pk: "svc_frame {k} out v (map_entrybuf (\<lambda>b. b\<lparr>cfe_peeked := cfe_peeked b + ucast cl\<rparr>) k out v)"
    for v and cl :: u32
    by (rule svc_frame_map_entrybuf) simp_all
  from Cons.prems show ?case
  proof (cases rule: peek_loop_cases)
    case stop
    then show ?thesis by simp
  next
    case skip
    then show ?thesis by (rule Cons.IH)
  next
    case (fail co cl)
    then show ?thesis using ev by simp
  next
    case (part co cl)
    then show ?thesis using svc_frame_trans_same [OF ev pk] by simp
  next
    case (more co cl)
    from svc_frame_trans_same [OF svc_frame_trans_same [OF ev pk] Cons.IH [OF more]]
    show ?thesis .
  qed
qed

lemma inject_q_enqueue_Some:
  assumes "inject_q_enqueue w out data len = Some w'"
  shows "w' = map_cfi_buf (\<lambda>b. b\<lparr>cfi_inject_q :=
            (cfi_inject_q (cfi_buf_of w out))\<lparr>q_mq := q_mq (cfi_inject_q (cfi_buf_of w out)) @ [data],
               q_end := q_end (cfi_inject_q (cfi_buf_of w out)) + ucast len\<rparr>\<rparr>) out w"
proof -
  from assms obtain q where q: "cfil_queue_enqueue (cfil_debug w) (cfi_inject_q (cfi_buf_of w out)) data (ucast len) = Some q"
    and w': "w' = map_cfi_buf (\<lambda>b. b\<lparr>cfi_inject_q := q\<rparr>) out w"
    by (auto simp: inject_q_enqueue_def bind_eq_Some_conv)
  from cfil_queue_enqueue_Some [OF q] w' show ?thesis by simp
qed

lemma pending_loop_cases:
  assumes "pending_q_loop nf w k out passlen curlen error (data # ds) = Some (w', e)"
  obtains (stop) "curlen + ucast (cfil_data_length data) > passlen" "w' = w" "e = error"
  | (step) q w2 e1 w3 where
      "\<not> curlen + ucast (cfil_data_length data) > passlen"
      "cfil_queue_remove (cfil_debug w) (cfe_pending_q (entrybuf w k out)) data
         (ucast (cfil_data_length data)) = Some q"
      "nf (map_entrybuf (\<lambda>b. b\<lparr>cfe_pending_q := q\<rparr>) k out w) out data
         (cfil_data_length data) error = Some (w2, e1)"
      "(if e1 = 0 then inject_q_enqueue w2 out data (cfil_data_length data) else Some w2) = Some w3"
      "pending_q_loop nf w3 k out passlen (curlen + ucast (cfil_data_length data)) e1 ds = Some (w', e)"
proof (cases "curlen + ucast (cfil_data_length data) > passlen")
  case True
  with assms have "w' = w" "e = error"
    by (simp_all only: pending_q_loop.simps Let_def if_True option.inject prod.inject)
  with True show ?thesis by (rule stop)
next
  case False
  with assms have "(cfil_queue_remove (cfil_debug w) (cfe_pending_q (entrybuf w k out)) data
         (ucast (cfil_data_length data)) \<bind> (\<lambda>q.
       nf (map_entrybuf (\<lambda>b. b\<lparr>cfe_pending_q := q\<rparr>) k out w) out data
         (cfil_data_length data) error \<bind> (\<lambda>(w2, error1).
       (if error1 = 0 then inject_q_enqueue w2 out data (cfil_data_length data) else Some w2) \<bind> (\<lambda>w3.
       pending_q_loop nf w3 k out passlen (curlen + ucast (cfil_data_length data)) error1 ds))))
      = Some (w', e)"
    by (simp only: pending_q_loop.simps Let_def if_False)
  then obtain q w2 e1 w3 where
      "cfil_queue_remove (cfil_debug w) (cfe_pending_q (entrybuf w k out)) data
         (ucast (cfil_data_length data)) = Some q"
      "nf (map_entrybuf (\<lambda>b. b\<lparr>cfe_pending_q := q\<rparr>) k out w) out data
         (cfil_data_length data) error = Some (w2, e1)"
      "(if e1 = 0 then inject_q_enqueue w2 out data (cfil_data_length data) else Some w2) = Some w3"
      "pending_q_loop nf w3 k out passlen (curlen + ucast (cfil_data_length data)) e1 ds = Some (w', e)"
    by (simp only: bind_eq_Some_conv split_def) (metis prod.collapse)
  with False show ?thesis by (rule step)
qed


lemma next_service_walk_Nil [simp]: "next_service_walk [] w out e = Some (w, e)"
  by (simp add: next_service_walk_def)

lemma next_filter_walk_Nil [simp]: "next_filter_walk [] w out data len e = Some (w, e)"
  by (simp add: next_filter_walk_def)

lemma next_service_walk_Cons:
  "next_service_walk (k # rest) w out e = do {
     (w1, e1) \<leftarrow> service_ctl_q w k rest out;
     if e1 \<noteq> 0 then Some (w1, e1) else next_service_walk rest w1 out e1
   }"
  unfolding next_service_walk_def next_filter_walk_def service_ctl_q_def chain_walks.simps
    Let_def fst_conv ..

lemma next_filter_walk_Cons:
  "next_filter_walk (k # rest) w out data len e = do {
     (w1, e1) \<leftarrow> data_filter w k rest out data len;
     if e1 \<noteq> 0 then Some (w1, e1) else next_filter_walk rest w1 out data len e1
   }"
  unfolding next_service_walk_def next_filter_walk_def data_filter_def chain_walks.simps
    Let_def snd_conv ..

lemma bind_pair_SomeE:
  assumes "(m \<bind> (\<lambda>(a, b). f a b)) = Some r"
  obtains a b where "m = Some (a, b)" "f a b = Some r"
proof (cases m)
  case None
  with assms show ?thesis by simp
next
  case (Some p)
  obtain a b where p: "p = (a, b)" by (cases p)
  from assms Some p have "f a b = Some r" by simp
  with Some p that show ?thesis by blast
qed

lemma bind_SomeE:
  assumes "(m \<bind> f) = Some r"
  obtains a where "m = Some a" "f a = Some r"
  using assms by (cases m) simp_all

lemma CFIL_INFO_VERIFY_bind_Some:
  "(CFIL_INFO_VERIFY w \<bind> f) = Some r \<longleftrightarrow> CFIL_INFO_VERIFY w = Some () \<and> f () = Some r"
  by (cases "CFIL_INFO_VERIFY w") simp_all

lemma next_service_walk_cases:
  assumes "next_service_walk (k # rest) w out e0 = Some (w', e)"
  obtains (stop) "service_ctl_q w k rest out = Some (w', e)" "e \<noteq> 0"
  | (more) w1 where "service_ctl_q w k rest out = Some (w1, 0)"
      "next_service_walk rest w1 out 0 = Some (w', e)"
proof -
  from assms [unfolded next_service_walk_Cons]
  obtain w1 e1 where 1: "service_ctl_q w k rest out = Some (w1, e1)"
    and 2: "(if e1 \<noteq> 0 then Some (w1, e1) else next_service_walk rest w1 out e1) = Some (w', e)"
    by (rule bind_pair_SomeE)
  show ?thesis
  proof (cases "e1 = 0")
    case True
    with 1 2 more show ?thesis by simp
  next
    case False
    with 1 2 stop show ?thesis by simp
  qed
qed

lemma next_filter_walk_cases:
  assumes "next_filter_walk (k # rest) w out data len e0 = Some (w', e)"
  obtains (stop) "data_filter w k rest out data len = Some (w', e)" "e \<noteq> 0"
  | (more) w1 where "data_filter w k rest out data len = Some (w1, 0)"
      "next_filter_walk rest w1 out data len 0 = Some (w', e)"
proof -
  from assms [unfolded next_filter_walk_Cons]
  obtain w1 e1 where 1: "data_filter w k rest out data len = Some (w1, e1)"
    and 2: "(if e1 \<noteq> 0 then Some (w1, e1) else next_filter_walk rest w1 out data len e1)
             = Some (w', e)"
    by (rule bind_pair_SomeE)
  show ?thesis
  proof (cases "e1 = 0")
    case True
    with 1 2 more show ?thesis by simp
  next
    case False
    with 1 2 stop show ?thesis by simp
  qed
qed

lemma service_pending_queue_with_cases:
  assumes "service_pending_queue_with ns nf w k out = Some (w', e)"
  obtains (empty) "q_mq (cfe_pending_q (entrybuf w k out)) = []" "ns w out 0 = Some (w', e)"
      "CFIL_INFO_VERIFY w' = Some ()"
  | (loop) "q_mq (cfe_pending_q (entrybuf w k out)) \<noteq> []"
      "pending_q_loop nf w k out
         (cfe_pass_offset (entrybuf w k out) - q_start (cfe_pending_q (entrybuf w k out))) 0 0
         (q_mq (cfe_pending_q (entrybuf w k out))) = Some (w', e)"
      "CFIL_INFO_VERIFY w' = Some ()"
proof -
  from assms [unfolded service_pending_queue_with_def Let_def cfil_queue_empty_def]
  obtain w1 e1 where 1: "(if q_mq (cfe_pending_q (entrybuf w k out)) = [] then ns w out 0
       else pending_q_loop nf w k out
         (cfe_pass_offset (entrybuf w k out) - q_start (cfe_pending_q (entrybuf w k out))) 0 0
         (q_mq (cfe_pending_q (entrybuf w k out)))) = Some (w1, e1)"
    and 2: "(CFIL_INFO_VERIFY w1 \<bind> (\<lambda>_. Some (w1, e1))) = Some (w', e)"
    by (rule bind_pair_SomeE)
  from 2 have 3: "CFIL_INFO_VERIFY w1 = Some ()" "w1 = w'" "e1 = e"
    by (auto simp: CFIL_INFO_VERIFY_bind_Some)
  show ?thesis
  proof (cases "q_mq (cfe_pending_q (entrybuf w k out)) = []")
    case True
    with 1 3 empty show ?thesis by simp
  next
    case False
    with 1 3 loop show ?thesis by simp
  qed
qed

lemma data_filter_with_cases:
  assumes "data_filter_with ns nf w k out data len = Some (w', e)"
  obtains (unattached) "cfe_filter (entry_at w k) = None" "w' = w" "e = 0"
      "CFIL_INFO_VERIFY w = Some ()"
  | (attached) q e1 where "cfe_filter (entry_at w k) \<noteq> None"
      "cfil_queue_enqueue (cfil_debug w) (cfe_ctl_q (entrybuf w k out)) data (ucast len) = Some q"
      "service_ctl_q_with ns nf (map_entrybuf (\<lambda>b. b\<lparr>cfe_ctl_q := q\<rparr>) k out w) k out = Some (w', e1)"
      "e = EJUSTRETURN" "CFIL_INFO_VERIFY w' = Some ()"
proof (cases "cfe_filter (entry_at w k) = None")
  case True
  with assms have "(CFIL_INFO_VERIFY w \<bind> (\<lambda>_. Some (w, 0))) = Some (w', e)"
    unfolding data_filter_with_def by (simp only: simp_thms if_True)
  hence "CFIL_INFO_VERIFY w = Some ()" "w' = w" "e = 0"
    by (auto simp: CFIL_INFO_VERIFY_bind_Some)
  with True unattached show ?thesis by blast
next
  case False
  with assms have *: "(cfil_queue_enqueue (cfil_debug w) (cfe_ctl_q (entrybuf w k out)) data
               (ucast len) \<bind> (\<lambda>q.
        service_ctl_q_with ns nf (map_entrybuf (\<lambda>b. b\<lparr>cfe_ctl_q := q\<rparr>) k out w) k out \<bind>
        (\<lambda>(w2, error). CFIL_INFO_VERIFY w2 \<bind> (\<lambda>_. Some (w2, EJUSTRETURN))))) = Some (w', e)"
    unfolding data_filter_with_def Let_def by (simp only: if_False)
  from * obtain q where q: "cfil_queue_enqueue (cfil_debug w) (cfe_ctl_q (entrybuf w k out)) data
               (ucast len) = Some q"
    and **: "(service_ctl_q_with ns nf (map_entrybuf (\<lambda>b. b\<lparr>cfe_ctl_q := q\<rparr>) k out w) k out \<bind>
        (\<lambda>(w2, error). CFIL_INFO_VERIFY w2 \<bind> (\<lambda>_. Some (w2, EJUSTRETURN)))) = Some (w', e)"
    by (rule bind_SomeE)
  from ** obtain w2 e1 where s: "service_ctl_q_with ns nf (map_entrybuf (\<lambda>b. b\<lparr>cfe_ctl_q := q\<rparr>) k out w) k out
       = Some (w2, e1)"
    and ***: "(CFIL_INFO_VERIFY w2 \<bind> (\<lambda>_. Some (w2, EJUSTRETURN))) = Some (w', e)"
    by (rule bind_pair_SomeE)
  from *** have "CFIL_INFO_VERIFY w2 = Some ()" "w2 = w'" "e = EJUSTRETURN"
    by (auto simp: CFIL_INFO_VERIFY_bind_Some)
  with False q s attached show ?thesis by blast
qed

lemma service_ctl_q_with_cases:
  assumes "service_ctl_q_with ns nf w k out = Some (w', e)"
  obtains (early) w1 where "ctl_q_start w k = (w1, False, e)" "w' = w1"
      "CFIL_INFO_VERIFY w' = Some ()"
  | (full) w1 e0 b w3 w4 where "ctl_q_start w k = (w1, True, e0)"
      "ctl_q_move_loop (cfil_debug w1) (entrybuf w1 k out) = Some b"
      "CFIL_INFO_VERIFY (map_entrybuf (\<lambda>_. b) k out w1) = Some ()"
      "ctl_q_peek_loop (map_entrybuf (\<lambda>_. b) k out w1) k out (q_mq (cfe_ctl_q b))
         (q_start (cfe_ctl_q b)) = Some w3"
      "CFIL_INFO_VERIFY w3 = Some ()"
      "service_pending_queue_with ns nf w3 k out = Some (w4, e)"
      "w' = (if e \<noteq> 0 then w4 else ctl_q_disconnect w4 k out)"
      "CFIL_INFO_VERIFY w' = Some ()"
proof -
  obtain w1 go e0 where st: "ctl_q_start w k = (w1, go, e0)" by (cases "ctl_q_start w k")
  show ?thesis
  proof (cases go)
    case False
    with assms st have "(CFIL_INFO_VERIFY w1 \<bind> (\<lambda>_. Some (w1, e0))) = Some (w', e)"
      unfolding service_ctl_q_with_def by simp
    hence "CFIL_INFO_VERIFY w1 = Some ()" "w1 = w'" "e0 = e"
      by (auto simp: CFIL_INFO_VERIFY_bind_Some)
    with False st early show ?thesis by simp
  next
    case True
    with assms st have *: "(ctl_q_move_loop (cfil_debug w1) (entrybuf w1 k out) \<bind> (\<lambda>b.
          CFIL_INFO_VERIFY (map_entrybuf (\<lambda>_. b) k out w1) \<bind> (\<lambda>_.
          ctl_q_peek_loop (map_entrybuf (\<lambda>_. b) k out w1) k out
                  (q_mq (cfe_ctl_q (entrybuf (map_entrybuf (\<lambda>_. b) k out w1) k out)))
                  (q_start (cfe_ctl_q (entrybuf (map_entrybuf (\<lambda>_. b) k out w1) k out))) \<bind> (\<lambda>w3.
          CFIL_INFO_VERIFY w3 \<bind> (\<lambda>_.
          service_pending_queue_with ns nf w3 k out \<bind> (\<lambda>(w4, error).
          CFIL_INFO_VERIFY (if error \<noteq> 0 then w4 else ctl_q_disconnect w4 k out) \<bind> (\<lambda>_.
          Some (if error \<noteq> 0 then w4 else ctl_q_disconnect w4 k out, error)))))))) = Some (w', e)"
      unfolding service_ctl_q_with_def Let_def by simp
    from * obtain b where b: "ctl_q_move_loop (cfil_debug w1) (entrybuf w1 k out) = Some b"
      and 1: "(CFIL_INFO_VERIFY (map_entrybuf (\<lambda>_. b) k out w1) \<bind> (\<lambda>_.
          ctl_q_peek_loop (map_entrybuf (\<lambda>_. b) k out w1) k out
                  (q_mq (cfe_ctl_q (entrybuf (map_entrybuf (\<lambda>_. b) k out w1) k out)))
                  (q_start (cfe_ctl_q (entrybuf (map_entrybuf (\<lambda>_. b) k out w1) k out))) \<bind> (\<lambda>w3.
          CFIL_INFO_VERIFY w3 \<bind> (\<lambda>_.
          service_pending_queue_with ns nf w3 k out \<bind> (\<lambda>(w4, error).
          CFIL_INFO_VERIFY (if error \<noteq> 0 then w4 else ctl_q_disconnect w4 k out) \<bind> (\<lambda>_.
          Some (if error \<noteq> 0 then w4 else ctl_q_disconnect w4 k out, error))))))) = Some (w', e)"
      by (rule bind_SomeE)
    from 1 have v2: "CFIL_INFO_VERIFY (map_entrybuf (\<lambda>_. b) k out w1) = Some ()"
      and 2: "(ctl_q_peek_loop (map_entrybuf (\<lambda>_. b) k out w1) k out
                  (q_mq (cfe_ctl_q (entrybuf (map_entrybuf (\<lambda>_. b) k out w1) k out)))
                  (q_start (cfe_ctl_q (entrybuf (map_entrybuf (\<lambda>_. b) k out w1) k out))) \<bind> (\<lambda>w3.
          CFIL_INFO_VERIFY w3 \<bind> (\<lambda>_.
          service_pending_queue_with ns nf w3 k out \<bind> (\<lambda>(w4, error).
          CFIL_INFO_VERIFY (if error \<noteq> 0 then w4 else ctl_q_disconnect w4 k out) \<bind> (\<lambda>_.
          Some (if error \<noteq> 0 then w4 else ctl_q_disconnect w4 k out, error)))))) = Some (w', e)"
      by (simp_all only: CFIL_INFO_VERIFY_bind_Some)
    from 2 obtain w3 where w3: "ctl_q_peek_loop (map_entrybuf (\<lambda>_. b) k out w1) k out
                  (q_mq (cfe_ctl_q (entrybuf (map_entrybuf (\<lambda>_. b) k out w1) k out)))
                  (q_start (cfe_ctl_q (entrybuf (map_entrybuf (\<lambda>_. b) k out w1) k out))) = Some w3"
      and 3: "(CFIL_INFO_VERIFY w3 \<bind> (\<lambda>_.
          service_pending_queue_with ns nf w3 k out \<bind> (\<lambda>(w4, error).
          CFIL_INFO_VERIFY (if error \<noteq> 0 then w4 else ctl_q_disconnect w4 k out) \<bind> (\<lambda>_.
          Some (if error \<noteq> 0 then w4 else ctl_q_disconnect w4 k out, error))))) = Some (w', e)"
      by (rule bind_SomeE)
    from 3 have v3: "CFIL_INFO_VERIFY w3 = Some ()"
      and 4: "(service_pending_queue_with ns nf w3 k out \<bind> (\<lambda>(w4, error).
          CFIL_INFO_VERIFY (if error \<noteq> 0 then w4 else ctl_q_disconnect w4 k out) \<bind> (\<lambda>_.
          Some (if error \<noteq> 0 then w4 else ctl_q_disconnect w4 k out, error)))) = Some (w', e)"
      by (simp_all only: CFIL_INFO_VERIFY_bind_Some)
    from 4 obtain w4 e4 where w4: "service_pending_queue_with ns nf w3 k out = Some (w4, e4)"
      and 5: "(CFIL_INFO_VERIFY (if e4 \<noteq> 0 then w4 else ctl_q_disconnect w4 k out) \<bind> (\<lambda>_.
          Some (if e4 \<noteq> 0 then w4 else ctl_q_disconnect w4 k out, e4))) = Some (w', e)"
      by (rule bind_pair_SomeE)
    from 5 have 6: "CFIL_INFO_VERIFY (if e4 \<noteq> 0 then w4 else ctl_q_disconnect w4 k out) = Some ()"
      "(if e4 \<noteq> 0 then w4 else ctl_q_disconnect w4 k out) = w'" "e4 = e"
      by (auto simp: CFIL_INFO_VERIFY_bind_Some)
    have eb: "entrybuf (map_entrybuf (\<lambda>_. b) k out w1) k out = b"
      by (simp add: entrybuf_map_entrybuf)
    from 6 have 7: "w' = (if e \<noteq> 0 then w4 else ctl_q_disconnect w4 k out)"
      "CFIL_INFO_VERIFY w' = Some ()" by auto
    from st True b v2 w3 [unfolded eb] v3 w4 [unfolded 6(3)] 7
    show ?thesis using full by simp
  qed
qed

lemma pending_loop_frame:
  assumes nf: "\<And>w d l e0 w' e. nf w out d l e0 = Some (w', e) \<Longrightarrow> svc_frame T out w w'"
    and k: "k \<in> T"
  shows "pending_q_loop nf w k out passlen curlen error ds = Some (w', e) \<Longrightarrow> svc_frame T out w w'"
proof (induction ds arbitrary: w curlen error)
  case Nil
  then show ?case by simp
next
  case (Cons data ds)
  from Cons.prems show ?case
  proof (cases rule: pending_loop_cases)
    case stop
    then show ?thesis by simp
  next
    case (step q w2 e1 w3)
    have 1: "svc_frame T out w (map_entrybuf (\<lambda>b. b\<lparr>cfe_pending_q := q\<rparr>) k out w)"
      using k by (intro svc_frame_map_entrybuf) simp_all
    have 2: "svc_frame T out (map_entrybuf (\<lambda>b. b\<lparr>cfe_pending_q := q\<rparr>) k out w) w2"
      using step(3) by (rule nf)
    have 3: "svc_frame T out w2 w3"
    proof (cases "e1 = 0")
      case True
      with step(4) have "inject_q_enqueue w2 out data (cfil_data_length data) = Some w3" by simp
      from inject_q_enqueue_Some [OF this] show ?thesis by (simp add: svc_frame_inject_q)
    next
      case False
      with step(4) show ?thesis by simp
    qed
    have 4: "svc_frame T out w3 w'" using step(5) by (rule Cons.IH)
    from 1 2 3 4 show ?thesis by (blast intro: svc_frame_trans_same)
  qed
qed

lemma service_pending_queue_with_frame:
  assumes ns: "\<And>w e0 w' e. ns w out e0 = Some (w', e) \<Longrightarrow> svc_frame T out w w'"
    and nf: "\<And>w d l e0 w' e. nf w out d l e0 = Some (w', e) \<Longrightarrow> svc_frame T out w w'"
    and k: "k \<in> T"
    and run: "service_pending_queue_with ns nf w k out = Some (w', e)"
  shows "svc_frame T out w w'"
  using run
proof (cases rule: service_pending_queue_with_cases)
  case empty
  then show ?thesis using ns by blast
next
  case loop
  from pending_loop_frame [of nf out T k, OF nf k loop(2)] show ?thesis .
qed

lemma ctl_q_start_frame: "svc_frame T out w (fst (ctl_q_start w k))"
  by (rule svc_frame_silent) simp

lemma service_ctl_q_with_frame:
  assumes ns: "\<And>w e0 w' e. ns w out e0 = Some (w', e) \<Longrightarrow> svc_frame T out w w'"
    and nf: "\<And>w d l e0 w' e. nf w out d l e0 = Some (w', e) \<Longrightarrow> svc_frame T out w w'"
    and k: "k \<in> T"
    and run: "service_ctl_q_with ns nf w k out = Some (w', e)"
  shows "svc_frame T out w w'"
  using run
proof (cases rule: service_ctl_q_with_cases)
  case (early w1)
  from ctl_q_start_frame [of T out w k] early show ?thesis by simp
next
  case (full w1 e0 b w3 w4)
  from ctl_q_start_frame [of T out w k] full(1) have 1: "svc_frame T out w w1" by simp
  have 2: "svc_frame T out w1 (map_entrybuf (\<lambda>_. b) k out w1)"
    using move_loop_offsets [OF full(2)] k by (intro svc_frame_map_entrybuf) simp_all
  have 3: "svc_frame T out (map_entrybuf (\<lambda>_. b) k out w1) w3"
    using k by (intro svc_frame_mono [OF peek_loop_frame [OF full(4)]]) simp
  have 4: "svc_frame T out w3 w4"
    using ns nf k full(6) by (rule service_pending_queue_with_frame)
  have 5: "svc_frame T out w4 w'"
    unfolding full(7) by (rule svc_frame_silent) simp
  from 1 2 3 4 5 show ?thesis by (blast intro: svc_frame_trans_same)
qed

lemma data_filter_with_frame:
  assumes ns: "\<And>w e0 w' e. ns w out e0 = Some (w', e) \<Longrightarrow> svc_frame T out w w'"
    and nf: "\<And>w d l e0 w' e. nf w out d l e0 = Some (w', e) \<Longrightarrow> svc_frame T out w w'"
    and k: "k \<in> T"
    and run: "data_filter_with ns nf w k out data len = Some (w', e)"
  shows "svc_frame T out w w'"
  using run
proof (cases rule: data_filter_with_cases)
  case unattached
  then show ?thesis by simp
next
  case (attached q e1)
  have 1: "svc_frame T out w (map_entrybuf (\<lambda>b. b\<lparr>cfe_ctl_q := q\<rparr>) k out w)"
    using k by (intro svc_frame_map_entrybuf) simp_all
  have 2: "svc_frame T out (map_entrybuf (\<lambda>b. b\<lparr>cfe_ctl_q := q\<rparr>) k out w) w'"
    using ns nf k attached(3) by (rule service_ctl_q_with_frame)
  from 1 2 show ?thesis by (rule svc_frame_trans_same)
qed

lemma walks_frame:
  "(next_service_walk rest w out e0 = Some (w', e) \<longrightarrow> svc_frame (set rest) out w w') \<and>
   (next_filter_walk rest w out data len e0 = Some (w', e) \<longrightarrow> svc_frame (set rest) out w w')"
proof (induction rest arbitrary: w w' e e0 data len)
  case Nil
  then show ?case by simp
next
  case (Cons k rest)
  have ns: "\<And>w e0 w' e. next_service_walk rest w out e0 = Some (w', e) \<Longrightarrow>
      svc_frame (set (k # rest)) out w w'"
    by (rule svc_frame_mono [of "set rest"]) (use Cons.IH in blast, rule set_subset_Cons)
  have nf: "\<And>w d l e0 w' e. next_filter_walk rest w out d l e0 = Some (w', e) \<Longrightarrow>
      svc_frame (set (k # rest)) out w w'"
    by (rule svc_frame_mono [of "set rest"]) (use Cons.IH in blast, rule set_subset_Cons)
  have k: "k \<in> set (k # rest)" by simp
  have s: "service_ctl_q w k rest out = Some (w', e) \<Longrightarrow> svc_frame (set (k # rest)) out w w'"
    for w w' e
    unfolding service_ctl_q_def using ns nf k by (rule service_ctl_q_with_frame)
  have f: "data_filter w k rest out data len = Some (w', e) \<Longrightarrow> svc_frame (set (k # rest)) out w w'"
    for w w' e data len
    unfolding data_filter_def using ns nf k by (rule data_filter_with_frame)
  show ?case
  proof (intro conjI impI)
    assume "next_service_walk (k # rest) w out e0 = Some (w', e)"
    then show "svc_frame (set (k # rest)) out w w'"
    proof (cases rule: next_service_walk_cases)
      case stop
      then show ?thesis using s by blast
    next
      case (more w1)
      from s [OF more(1)] ns [OF more(2)] show ?thesis by (rule svc_frame_trans_same)
    qed
  next
    assume "next_filter_walk (k # rest) w out data len e0 = Some (w', e)"
    then show "svc_frame (set (k # rest)) out w w'"
    proof (cases rule: next_filter_walk_cases)
      case stop
      then show ?thesis using f by blast
    next
      case (more w1)
      from f [OF more(1)] nf [OF more(2)] show ?thesis by (rule svc_frame_trans_same)
    qed
  qed
qed

lemma next_service_walk_frame:
  "next_service_walk rest w out e0 = Some (w', e) \<Longrightarrow> svc_frame (set rest) out w w'"
  using walks_frame by blast

lemma next_filter_walk_frame:
  "next_filter_walk rest w out data len e0 = Some (w', e) \<Longrightarrow> svc_frame (set rest) out w w'"
  using walks_frame by blast

lemma service_ctl_q_frame:
  assumes "service_ctl_q w k rest out = Some (w', e)"
  shows "svc_frame (set (k # rest)) out w w'"
proof (rule service_ctl_q_with_frame [OF _ _ _ assms [unfolded service_ctl_q_def]])
  show "k \<in> set (k # rest)" by simp
qed (erule svc_frame_mono [OF next_service_walk_frame] svc_frame_mono [OF next_filter_walk_frame], rule set_subset_Cons)+

lemma service_pending_queue_frame:
  assumes "service_pending_queue w k rest out = Some (w', e)"
  shows "svc_frame (set (k # rest)) out w w'"
proof (rule service_pending_queue_with_frame [OF _ _ _ assms [unfolded service_pending_queue_def]])
  show "k \<in> set (k # rest)" by simp
qed (erule svc_frame_mono [OF next_service_walk_frame] svc_frame_mono [OF next_filter_walk_frame], rule set_subset_Cons)+

lemma data_filter_frame:
  assumes "data_filter w k rest out data len = Some (w', e)"
  shows "svc_frame (set (k # rest)) out w w'"
proof (rule data_filter_with_frame [OF _ _ _ assms [unfolded data_filter_def]])
  show "k \<in> set (k # rest)" by simp
qed (erule svc_frame_mono [OF next_service_walk_frame] svc_frame_mono [OF next_filter_walk_frame], rule set_subset_Cons)+

lemma cfil_data_service_ctl_q_frame:
  "cfil_data_service_ctl_q w k out = Some (w', e) \<Longrightarrow> svc_frame UNIV out w w'"
  unfolding cfil_data_service_ctl_q_def
  by (drule service_ctl_q_frame) (erule svc_frame_mono, simp)

subsection \<open>Verdicts\<close>

lemma dv_update_offsets_done:
  assumes "update_offsets_done w k e = Some (w', e')"
  shows "dv w' = dv w" "e' = e" "CFIL_INFO_VERIFY w' = Some ()"
  using assms
  by (auto simp: update_offsets_done_def Let_def CFIL_INFO_VERIFY_bind_Some split: if_splits)

lemma update_offsets_done_total:
  assumes "CFIL_INFO_VERIFY w = Some ()"
  shows "\<exists>w'. update_offsets_done w k e = Some (w', e)"
proof -
  define w1 where "w1 = (if (cfe_pass_offset (cfe_snd (entry_at w k)) = CFM_MAX_OFFSET \<and>
                    cfe_pass_offset (cfe_rcv (entry_at w k)) = CFM_MAX_OFFSET) \<or>
                   (cfi_flags (cfil_info w) AND CFIF_CLOSE_WAIT \<noteq> 0 \<and>
                    cfil_queue_empty (cfe_ctl_q (cfe_snd (entry_at w k))) \<and>
                    cfil_queue_empty (cfe_ctl_q (cfe_rcv (entry_at w k))))
                then
                  (let w' = map_entry (\<lambda>e. e\<lparr>cfe_flags := cfe_flags e OR CFEF_CFIL_DETACHED\<rparr>)
                              k w
                   in if cfi_flags (cfil_info w') AND CFIF_CLOSE_WAIT \<noteq> 0 \<and>
                         \<not> cfil_filters_attached w'
                      then emit EvWakeup w' else w')
                else w)"
  have "dv w1 = dv w" by (simp add: w1_def Let_def)
  hence "CFIL_INFO_VERIFY w1 = Some ()" using assms dv_eqD(11) by metis
  moreover have "update_offsets_done w k e = do { _ \<leftarrow> CFIL_INFO_VERIFY w1; Some (w1, e) }"
    unfolding update_offsets_done_def w1_def Let_def ..
  ultimately show ?thesis by simp
qed

lemma record_offsets_queues:
  "cfe_ctl_q (fst (record_offsets b p q)) = cfe_ctl_q b"
  "cfe_pending_q (fst (record_offsets b p q)) = cfe_pending_q b"
  "cfe_peeked (fst (record_offsets b p q)) = cfe_peeked b"
  by (simp_all add: record_offsets_def Let_def split_def)

lemma record_offsets_pass:
  "cfe_pass_offset (fst (record_offsets b p q)) = max (cfe_pass_offset b) p"
  by (auto simp: record_offsets_def Let_def split_def max_def)

lemma record_offsets_peek_mono:
  "cfe_peek_offset b \<le> cfe_peek_offset (fst (record_offsets b p q))"
  by (auto simp: record_offsets_def Let_def split_def)

lemma record_offsets_peek:
  "cfe_pass_offset b \<le> cfe_peek_offset b \<Longrightarrow>
   cfe_peek_offset (fst (record_offsets b p q)) = max (cfe_peek_offset b) (max p q)"
  by (auto simp: record_offsets_def Let_def split_def max_def)

lemma record_offsets_stale:
  "p \<le> cfe_pass_offset b \<Longrightarrow> q \<le> cfe_peek_offset b \<Longrightarrow> record_offsets b p q = (b, False)"
  by (auto simp: record_offsets_def Let_def)

lemma record_offsets_again:
  assumes "cfe_pass_offset b' = cfe_pass_offset (fst (record_offsets b p q))"
    and "cfe_peek_offset b' = cfe_peek_offset (fst (record_offsets b p q))"
  shows "record_offsets b' p q = (b', False)"
  using assms by (auto simp: record_offsets_def Let_def split_def split: if_splits)

lemma record_offsets_not_updated:
  "\<not> snd (record_offsets b p q) \<Longrightarrow> fst (record_offsets b p q) = b"
  by (auto simp: record_offsets_def Let_def split_def split: if_splits)


lemma dv_map_entrybuf_same [simp]: "dv (map_entrybuf (\<lambda>_. entrybuf w k out) k out w) = dv w"
  by (auto simp: dv_def map_entrybuf_def map_entry_def buf_upd_def entrybuf_def buf_of_def
      entry_at_def fun_eq_iff)

lemma entrybuf_map_entrybuf_other:
  "k' - 1 \<noteq> k - 1 \<or> out' \<noteq> out \<Longrightarrow> entrybuf (map_entrybuf f k out w) k' out' = entrybuf w k' out'"
  by (auto simp: map_entrybuf_def map_entry_def buf_upd_def entrybuf_def buf_of_def entry_at_def)

lemma update_data_offsets_cases:
  assumes "cfil_update_data_offsets w k out p q = Some (w', e)"
  obtains (dropped) "cfi_flags (cfil_info w) AND CFIF_DROP \<noteq> 0" "w' = w" "e = EPIPE"
      "CFIL_INFO_VERIFY w = Some ()"
  | (stale) "cfi_flags (cfil_info w) AND CFIF_DROP = 0"
      "record_offsets (entrybuf w k out) p q = (entrybuf w k out, False)"
      "update_offsets_done (map_entrybuf (\<lambda>_. entrybuf w k out) k out w) k 0 = Some (w', e)"
  | (updated) w2 e2 where "cfi_flags (cfil_info w) AND CFIF_DROP = 0"
      "snd (record_offsets (entrybuf w k out) p q)"
      "cfil_data_service_ctl_q
         (map_entrybuf (\<lambda>_. fst (record_offsets (entrybuf w k out) p q)) k out w) k out = Some (w2, e2)"
      "update_offsets_done w2 k (if e2 \<noteq> 0 then e2 else EJUSTRETURN) = Some (w', e)"
proof (cases "cfi_flags (cfil_info w) AND CFIF_DROP \<noteq> 0")
  case True
  with assms have "(CFIL_INFO_VERIFY w \<bind> (\<lambda>_. Some (w, EPIPE))) = Some (w', e)"
    by (simp add: cfil_update_data_offsets_def)
  hence "CFIL_INFO_VERIFY w = Some ()" "w' = w" "e = EPIPE"
    by (auto simp: CFIL_INFO_VERIFY_bind_Some)
  with True dropped show ?thesis by blast
next
  case False
  hence live: "cfi_flags (cfil_info w) AND CFIF_DROP = 0" by simp
  show ?thesis
  proof (cases "snd (record_offsets (entrybuf w k out) p q)")
    case True
    with assms live have "(cfil_data_service_ctl_q
         (map_entrybuf (\<lambda>_. fst (record_offsets (entrybuf w k out) p q)) k out w) k out \<bind>
         (\<lambda>(w2, error). update_offsets_done w2 k (if error \<noteq> 0 then error else EJUSTRETURN)))
        = Some (w', e)"
      by (simp add: cfil_update_data_offsets_def split_def Let_def)
    then obtain w2 e2 where "cfil_data_service_ctl_q
         (map_entrybuf (\<lambda>_. fst (record_offsets (entrybuf w k out) p q)) k out w) k out = Some (w2, e2)"
      "update_offsets_done w2 k (if e2 \<noteq> 0 then e2 else EJUSTRETURN) = Some (w', e)"
      by (rule bind_pair_SomeE)
    with live True updated show ?thesis by blast
  next
    case False
    hence eq: "record_offsets (entrybuf w k out) p q = (entrybuf w k out, False)"
      using record_offsets_not_updated [of "entrybuf w k out" p q]
      by (cases "record_offsets (entrybuf w k out) p q") simp
    with assms live have
      "update_offsets_done (map_entrybuf (\<lambda>_. entrybuf w k out) k out w) k 0 = Some (w', e)"
      by (simp add: cfil_update_data_offsets_def)
    with live eq stale show ?thesis by blast
  qed
qed

lemma update_data_offsets_bufs:
  assumes "cfil_update_data_offsets w k out p q = Some (w', e)"
  shows "cfe_pass_offset (entrybuf w' k out) =
           (if cfi_flags (cfil_info w) AND CFIF_DROP \<noteq> 0 then cfe_pass_offset (entrybuf w k out)
            else max (cfe_pass_offset (entrybuf w k out)) p)"
    and "cfe_peek_offset (entrybuf w' k out) =
           (if cfi_flags (cfil_info w) AND CFIF_DROP \<noteq> 0 then cfe_peek_offset (entrybuf w k out)
            else cfe_peek_offset (fst (record_offsets (entrybuf w k out) p q)))"
    and "k' - 1 \<noteq> k - 1 \<or> out' \<noteq> out \<Longrightarrow>
           cfe_pass_offset (entrybuf w' k' out') = cfe_pass_offset (entrybuf w k' out') \<and>
           cfe_peek_offset (entrybuf w' k' out') = cfe_peek_offset (entrybuf w k' out')"
    and "CFIL_INFO_VERIFY w' = Some ()"
proof -
  have "cfe_pass_offset (entrybuf w' k out) =
           (if cfi_flags (cfil_info w) AND CFIF_DROP \<noteq> 0 then cfe_pass_offset (entrybuf w k out)
            else max (cfe_pass_offset (entrybuf w k out)) p) \<and>
        cfe_peek_offset (entrybuf w' k out) =
           (if cfi_flags (cfil_info w) AND CFIF_DROP \<noteq> 0 then cfe_peek_offset (entrybuf w k out)
            else cfe_peek_offset (fst (record_offsets (entrybuf w k out) p q))) \<and>
        (k' - 1 \<noteq> k - 1 \<or> out' \<noteq> out \<longrightarrow>
           cfe_pass_offset (entrybuf w' k' out') = cfe_pass_offset (entrybuf w k' out') \<and>
           cfe_peek_offset (entrybuf w' k' out') = cfe_peek_offset (entrybuf w k' out')) \<and>
        CFIL_INFO_VERIFY w' = Some ()"
    using assms
  proof (cases rule: update_data_offsets_cases)
    case dropped
    then show ?thesis by simp
  next
    case stale
    from dv_update_offsets_done [OF stale(3)]
    have d: "dv w' = dv w" and v: "CFIL_INFO_VERIFY w' = Some ()" by simp_all
    have "entrybuf w' kk oo = entrybuf w kk oo" for kk oo using dv_eqD(5) [OF d] .
    with stale(1,2) v show ?thesis
      by (simp add: record_offsets_pass [of "entrybuf w k out" p q, unfolded stale(2), simplified, symmetric])
  next
    case (updated w2 e2)
    let ?b = "fst (record_offsets (entrybuf w k out) p q)"
    let ?w1 = "map_entrybuf (\<lambda>_. ?b) k out w"
    from dv_update_offsets_done [OF updated(4)]
    have d: "dv w' = dv w2" and v: "CFIL_INFO_VERIFY w' = Some ()" by simp_all
    have e: "entrybuf w' kk oo = entrybuf w2 kk oo" for kk oo using dv_eqD(5) [OF d] .
    from cfil_data_service_ctl_q_frame [OF updated(3)]
    have f: "cfe_pass_offset (entrybuf w2 kk oo) = cfe_pass_offset (entrybuf ?w1 kk oo)"
      "cfe_peek_offset (entrybuf w2 kk oo) = cfe_peek_offset (entrybuf ?w1 kk oo)" for kk oo
      by (simp_all add: svc_frame_def)
    have 1: "entrybuf ?w1 k out = ?b" by (simp add: entrybuf_map_entrybuf)
    have 2: "k' - 1 \<noteq> k - 1 \<or> out' \<noteq> out \<Longrightarrow> entrybuf ?w1 k' out' = entrybuf w k' out'"
      by (rule entrybuf_map_entrybuf_other)
    have 3: "k' - 1 \<noteq> k - 1 \<or> out' \<noteq> out \<longrightarrow>
           cfe_pass_offset (entrybuf w' k' out') = cfe_pass_offset (entrybuf w k' out') \<and>
           cfe_peek_offset (entrybuf w' k' out') = cfe_peek_offset (entrybuf w k' out')"
      unfolding e f using 2 by simp
    have 4: "cfe_pass_offset (entrybuf w' k out) = max (cfe_pass_offset (entrybuf w k out)) p"
      "cfe_peek_offset (entrybuf w' k out) = cfe_peek_offset ?b"
      unfolding e f 1 by (simp_all add: record_offsets_pass)
    from updated(1) v 3 4 show ?thesis by simp
  qed
  thus "cfe_pass_offset (entrybuf w' k out) =
           (if cfi_flags (cfil_info w) AND CFIF_DROP \<noteq> 0 then cfe_pass_offset (entrybuf w k out)
            else max (cfe_pass_offset (entrybuf w k out)) p)"
    and "cfe_peek_offset (entrybuf w' k out) =
           (if cfi_flags (cfil_info w) AND CFIF_DROP \<noteq> 0 then cfe_peek_offset (entrybuf w k out)
            else cfe_peek_offset (fst (record_offsets (entrybuf w k out) p q)))"
    and "k' - 1 \<noteq> k - 1 \<or> out' \<noteq> out \<Longrightarrow>
           cfe_pass_offset (entrybuf w' k' out') = cfe_pass_offset (entrybuf w k' out') \<and>
           cfe_peek_offset (entrybuf w' k' out') = cfe_peek_offset (entrybuf w k' out')"
    and "CFIL_INFO_VERIFY w' = Some ()"
    by blast+
qed


lemmas ex_held_defs = ex_held_def ex_world_def ex_stream_so_def ex_attached_def cfil_info_alloc_def
  attach_entry_def cfi_buf_init_def cfe_buf_init_def cfil_queue_init_def pkt_def
  map_cfi_buf_def map_entrybuf_def map_entry_def buf_upd_def entrybuf_def buf_of_def entry_at_def
  cfi_buf_of_def

lemma ex_held_verify: "CFIL_INFO_VERIFY ex_held = Some ()"
  by (simp add: ex_held_defs CFIL_INFO_VERIFY_def cfil_info_verify_def cfil_info_buf_verify_def
      cfil_entry_verify_def cfil_entry_buf_verify_def cfil_queue_verify_def cfil_queue_empty_def
      queuesize_def cfil_data_length_def)


lemma verdict_step:
  assumes inv: "cfe_pass_offset (entrybuf w k out) \<le> cfe_peek_offset (entrybuf w k out)"
    and run: "cfil_update_data_offsets w k out p q = Some (w', e)"
  shows "cfe_pass_offset (entrybuf w' k out) =
           (if cfi_flags (cfil_info w) AND CFIF_DROP \<noteq> 0 then cfe_pass_offset (entrybuf w k out)
            else max (cfe_pass_offset (entrybuf w k out)) p)"
    and "cfe_peek_offset (entrybuf w' k out) =
           (if cfi_flags (cfil_info w) AND CFIF_DROP \<noteq> 0 then cfe_peek_offset (entrybuf w k out)
            else max (cfe_peek_offset (entrybuf w k out)) (max p q))"
    and "cfe_pass_offset (entrybuf w' k out) \<le> cfe_peek_offset (entrybuf w' k out)"
    and "cfi_flags (cfil_info w) AND CFIF_DROP = 0 \<Longrightarrow> p \<le> cfe_pass_offset (entrybuf w k out) \<Longrightarrow>
         q \<le> cfe_peek_offset (entrybuf w k out) \<Longrightarrow> e = 0"
proof -
  show 1: "cfe_pass_offset (entrybuf w' k out) =
           (if cfi_flags (cfil_info w) AND CFIF_DROP \<noteq> 0 then cfe_pass_offset (entrybuf w k out)
            else max (cfe_pass_offset (entrybuf w k out)) p)"
    by (rule update_data_offsets_bufs(1) [OF run])
  show 2: "cfe_peek_offset (entrybuf w' k out) =
           (if cfi_flags (cfil_info w) AND CFIF_DROP \<noteq> 0 then cfe_peek_offset (entrybuf w k out)
            else max (cfe_peek_offset (entrybuf w k out)) (max p q))"
    using update_data_offsets_bufs(2) [OF run] record_offsets_peek [OF inv, of p q] by simp
  show "cfe_pass_offset (entrybuf w' k out) \<le> cfe_peek_offset (entrybuf w' k out)"
    unfolding 1 2 using inv by (auto simp: max_def)
  show "e = 0" if "cfi_flags (cfil_info w) AND CFIF_DROP = 0" "p \<le> cfe_pass_offset (entrybuf w k out)"
    "q \<le> cfe_peek_offset (entrybuf w k out)"
    using run
  proof (cases rule: update_data_offsets_cases)
    case dropped
    with that show ?thesis by simp
  next
    case stale
    from dv_update_offsets_done(2) [OF stale(3)] show ?thesis .
  next
    case (updated w2 e2)
    with record_offsets_stale [OF that(2,3)] show ?thesis by simp
  qed
qed

lemma update_data_offsets_seq_all:
  assumes step: "\<And>w v w' e. I w \<Longrightarrow>
      cfil_update_data_offsets w k out (fst v) (snd v) = Some (w', e) \<Longrightarrow> P w v (w', e) \<and> I w'"
    and inv: "I w"
    and run: "update_data_offsets_seq w k out vs = Some rs"
  shows "length rs = length vs \<and> (\<forall>i < length vs. P ((w # map fst rs) ! i) (vs ! i) (rs ! i))"
  using inv run
proof (induction vs arbitrary: w rs)
  case Nil
  then show ?case by simp
next
  case (Cons v vs)
  from Cons.prems(2) obtain w1 e1 where
    first: "cfil_update_data_offsets w k out (fst v) (snd v) = Some (w1, e1)"
    and rest: "(update_data_offsets_seq w1 k out vs \<bind> (\<lambda>rs. Some ((w1, e1) # rs))) = Some rs"
    unfolding update_data_offsets_seq.simps by (rule bind_pair_SomeE)
  from rest obtain rs1 where rs1: "update_data_offsets_seq w1 k out vs = Some rs1"
    and rs: "rs = (w1, e1) # rs1"
    by (auto elim: bind_SomeE)
  note st = step [OF Cons.prems(1) first]
  from st have I1: "I w1" by simp
  note ih = Cons.IH [OF I1 rs1]
  show ?case
  proof (intro conjI allI impI)
    show "length rs = length (v # vs)" using ih rs by simp
  next
    fix i assume i: "i < length (v # vs)"
    show "P ((w # map fst rs) ! i) ((v # vs) ! i) (rs ! i)"
    proof (cases i)
      case 0
      with st show ?thesis unfolding rs by simp
    next
      case (Suc j)
      with i have "j < length vs" by simp
      with ih have "P ((w1 # map fst rs1) ! j) (vs ! j) (rs1 ! j)" by blast
      thus ?thesis unfolding rs Suc by simp
    qed
  qed
qed

text \<open>
  Claim C2. Along any sequence of verdicts applied to an entry and direction whose pass
  offset is not above its peek offset at the start (both are 0 when the flow is
  allocated), each call of \<open>cfil_update_data_offsets\<close> leaves the pass offset and the peek
  offset at least what they were, and the pass offset not above the peek offset. On a
  flow that is not dropped the new pass offset is the larger of the old one and the
  verdict's, the new peek offset the largest of the old one and the two of the verdict;
  on a dropped flow both stay. A verdict with neither offset above the recorded ones
  returns 0.
\<close>

theorem verdict_offsets_monotone:
  assumes inv: "cfe_pass_offset (entrybuf w k out) \<le> cfe_peek_offset (entrybuf w k out)"
    and run: "update_data_offsets_seq w k out vs = Some rs"
  shows "length rs = length vs \<and>
         (\<forall>i < length vs.
            cfe_pass_offset (entrybuf ((w # map fst rs) ! i) k out) \<le>
              cfe_pass_offset (entrybuf (fst (rs ! i)) k out) \<and>
            cfe_peek_offset (entrybuf ((w # map fst rs) ! i) k out) \<le>
              cfe_peek_offset (entrybuf (fst (rs ! i)) k out) \<and>
            cfe_pass_offset (entrybuf (fst (rs ! i)) k out) \<le>
              cfe_peek_offset (entrybuf (fst (rs ! i)) k out) \<and>
            cfe_pass_offset (entrybuf (fst (rs ! i)) k out) =
              (if cfi_flags (cfil_info ((w # map fst rs) ! i)) AND CFIF_DROP \<noteq> 0
               then cfe_pass_offset (entrybuf ((w # map fst rs) ! i) k out)
               else max (cfe_pass_offset (entrybuf ((w # map fst rs) ! i) k out)) (fst (vs ! i))) \<and>
            cfe_peek_offset (entrybuf (fst (rs ! i)) k out) =
              (if cfi_flags (cfil_info ((w # map fst rs) ! i)) AND CFIF_DROP \<noteq> 0
               then cfe_peek_offset (entrybuf ((w # map fst rs) ! i) k out)
               else max (cfe_peek_offset (entrybuf ((w # map fst rs) ! i) k out))
                      (max (fst (vs ! i)) (snd (vs ! i)))) \<and>
            (cfi_flags (cfil_info ((w # map fst rs) ! i)) AND CFIF_DROP = 0 \<and>
             fst (vs ! i) \<le> cfe_pass_offset (entrybuf ((w # map fst rs) ! i) k out) \<and>
             snd (vs ! i) \<le> cfe_peek_offset (entrybuf ((w # map fst rs) ! i) k out) \<longrightarrow>
               snd (rs ! i) = 0))"
proof -
  have "length rs = length vs \<and> (\<forall>i < length vs.
     (\<lambda>b v r. cfe_pass_offset (entrybuf b k out) \<le> cfe_pass_offset (entrybuf (fst r) k out) \<and>
            cfe_peek_offset (entrybuf b k out) \<le> cfe_peek_offset (entrybuf (fst r) k out) \<and>
            cfe_pass_offset (entrybuf (fst r) k out) \<le> cfe_peek_offset (entrybuf (fst r) k out) \<and>
            cfe_pass_offset (entrybuf (fst r) k out) =
              (if cfi_flags (cfil_info b) AND CFIF_DROP \<noteq> 0
               then cfe_pass_offset (entrybuf b k out)
               else max (cfe_pass_offset (entrybuf b k out)) (fst v)) \<and>
            cfe_peek_offset (entrybuf (fst r) k out) =
              (if cfi_flags (cfil_info b) AND CFIF_DROP \<noteq> 0
               then cfe_peek_offset (entrybuf b k out)
               else max (cfe_peek_offset (entrybuf b k out)) (max (fst v) (snd v))) \<and>
            (cfi_flags (cfil_info b) AND CFIF_DROP = 0 \<and>
             fst v \<le> cfe_pass_offset (entrybuf b k out) \<and>
             snd v \<le> cfe_peek_offset (entrybuf b k out) \<longrightarrow> snd r = 0))
       ((w # map fst rs) ! i) (vs ! i) (rs ! i))"
  proof (rule update_data_offsets_seq_all
      [where I = "\<lambda>w. cfe_pass_offset (entrybuf w k out) \<le> cfe_peek_offset (entrybuf w k out)",
        OF _ inv run])
    fix w v w' e
    assume i: "cfe_pass_offset (entrybuf w k out) \<le> cfe_peek_offset (entrybuf w k out)"
      and r: "cfil_update_data_offsets w k out (fst v) (snd v) = Some (w', e)"
    note st = verdict_step [OF i r]
    have a: "cfe_pass_offset (entrybuf w k out) \<le> cfe_pass_offset (entrybuf w' k out)"
      unfolding st(1) by simp
    have b: "cfe_peek_offset (entrybuf w k out) \<le> cfe_peek_offset (entrybuf w' k out)"
      unfolding st(2) by simp
    from a b st show "(cfe_pass_offset (entrybuf w k out) \<le> cfe_pass_offset (entrybuf (fst (w', e)) k out) \<and>
            cfe_peek_offset (entrybuf w k out) \<le> cfe_peek_offset (entrybuf (fst (w', e)) k out) \<and>
            cfe_pass_offset (entrybuf (fst (w', e)) k out) \<le> cfe_peek_offset (entrybuf (fst (w', e)) k out) \<and>
            cfe_pass_offset (entrybuf (fst (w', e)) k out) =
              (if cfi_flags (cfil_info w) AND CFIF_DROP \<noteq> 0
               then cfe_pass_offset (entrybuf w k out)
               else max (cfe_pass_offset (entrybuf w k out)) (fst v)) \<and>
            cfe_peek_offset (entrybuf (fst (w', e)) k out) =
              (if cfi_flags (cfil_info w) AND CFIF_DROP \<noteq> 0
               then cfe_peek_offset (entrybuf w k out)
               else max (cfe_peek_offset (entrybuf w k out)) (max (fst v) (snd v))) \<and>
            (cfi_flags (cfil_info w) AND CFIF_DROP = 0 \<and>
             fst v \<le> cfe_pass_offset (entrybuf w k out) \<and>
             snd v \<le> cfe_peek_offset (entrybuf w k out) \<longrightarrow> snd (w', e) = 0)) \<and>
          cfe_pass_offset (entrybuf w' k out) \<le> cfe_peek_offset (entrybuf w' k out)"
      unfolding fst_conv snd_conv by blast
  qed
  thus ?thesis .
qed

theorem verdict_offsets_monotone_witness:
  "cfe_pass_offset (entrybuf ex_held 1 True) \<le> cfe_peek_offset (entrybuf ex_held 1 True) \<and>
   (\<exists>rs. update_data_offsets_seq ex_held 1 True [(150, 0), (120, 300)] = Some rs \<and>
      length rs = 2 \<and>
      map (\<lambda>r. (cfe_pass_offset (entrybuf (fst r) 1 True),
                 cfe_peek_offset (entrybuf (fst r) 1 True))) rs = [(150, 200), (150, 300)])"
proof -
  have inv: "cfe_pass_offset (entrybuf ex_held 1 True) \<le> cfe_peek_offset (entrybuf ex_held 1 True)"
    by (simp add: ex_held_defs)
  have "\<not> Option.is_none (update_data_offsets_seq ex_held 1 True [(150, 0), (120, 300)])"
    by code_simp
  then obtain rs where run: "update_data_offsets_seq ex_held 1 True [(150, 0), (120, 300)] = Some rs"
    by (auto simp: Option.is_none_def)
  have "map (\<lambda>r. (cfe_pass_offset (entrybuf (fst r) 1 True),
                  cfe_peek_offset (entrybuf (fst r) 1 True)))
          (the (update_data_offsets_seq ex_held 1 True [(150, 0), (120, 300)])) =
        [(150, 200), (150, 300)]"
    by code_simp
  with run have vals: "map (\<lambda>r. (cfe_pass_offset (entrybuf (fst r) 1 True),
                  cfe_peek_offset (entrybuf (fst r) 1 True))) rs = [(150, 200), (150, 300)]"
    by simp
  from verdict_offsets_monotone [OF inv run] have len: "length rs = 2" by simp
  show ?thesis
  proof (intro conjI exI)
    show "update_data_offsets_seq ex_held 1 True [(150, 0), (120, 300)] = Some rs" by (rule run)
  qed (rule inv len vals)+
qed

subsection \<open>The fast path of a submit\<close>

lemma u64_add_le_mono:
  fixes a b d :: u64
  assumes "a \<le> b" "unat b + unat d < 2 ^ 64"
  shows "a + d \<le> b + d"
proof -
  from assms have "unat a + unat d < 2 ^ 64" by (simp add: word_le_nat_alt)
  hence a: "unat (a + d) = unat a + unat d" by (simp add: unat_word_ariths take_bit_nat_eq_self take_bit_eq_mod [symmetric])
  from assms(2) have b: "unat (b + d) = unat b + unat d" by (simp add: unat_word_ariths take_bit_nat_eq_self take_bit_eq_mod [symmetric])
  from assms(1) show ?thesis by (simp add: word_le_nat_alt a b)
qed

lemma fold_update_entry_offsets:
  assumes "distinct (map (\<lambda>k. k - 1) ks)"
  shows "fold (update_entry_offsets_unit out d) ks w =
     w\<lparr>cfil_info := (cfil_info w)\<lparr>cfi_entries := (\<lambda>i.
        if i \<in> (\<lambda>k. k - 1) ` set ks \<and> cfe_filter (cfi_entries (cfil_info w) i) \<noteq> None
        then buf_upd out (entry_offsets_step d) (cfi_entries (cfil_info w) i)
        else cfi_entries (cfil_info w) i)\<rparr>\<rparr>"
  using assms
proof (induction ks arbitrary: w)
  case Nil
  then show ?case by simp
next
  case (Cons k ks)
  let ?w1 = "update_entry_offsets_unit out d k w"
  have f: "cfe_filter (cfi_entries (cfil_info ?w1) i) = cfe_filter (cfi_entries (cfil_info w) i)" for i
    by (simp add: update_entry_offsets_unit_def map_entrybuf_def map_entry_def buf_upd_def)
  from Cons.prems have nk: "k - 1 \<notin> (\<lambda>k. k - 1) ` set ks" and ds: "distinct (map (\<lambda>k. k - 1) ks)"
    by auto
  have "fold (update_entry_offsets_unit out d) (k # ks) w =
        fold (update_entry_offsets_unit out d) ks ?w1" by simp
  also have "\<dots> = ?w1\<lparr>cfil_info := (cfil_info ?w1)\<lparr>cfi_entries := (\<lambda>i.
        if i \<in> (\<lambda>k. k - 1) ` set ks \<and> cfe_filter (cfi_entries (cfil_info ?w1) i) \<noteq> None
        then buf_upd out (entry_offsets_step d) (cfi_entries (cfil_info ?w1) i)
        else cfi_entries (cfil_info ?w1) i)\<rparr>\<rparr>"
    by (rule Cons.IH [OF ds])
  also have "\<dots> = w\<lparr>cfil_info := (cfil_info w)\<lparr>cfi_entries := (\<lambda>i.
        if i \<in> (\<lambda>k. k - 1) ` set (k # ks) \<and> cfe_filter (cfi_entries (cfil_info w) i) \<noteq> None
        then buf_upd out (entry_offsets_step d) (cfi_entries (cfil_info w) i)
        else cfi_entries (cfil_info w) i)\<rparr>\<rparr>"
    unfolding f using nk
    by (auto simp: update_entry_offsets_unit_def map_entrybuf_def map_entry_def entry_at_def
        fun_eq_iff intro!: arg_cong [where f = "\<lambda>x. cfil_info_update x w"])
  finally show ?case .
qed


lemma CFIL_INFO_VERIFY_iff:
  "CFIL_INFO_VERIFY w = Some () \<longleftrightarrow>
     (cfil_debug w \<longrightarrow>
        cfil_info_buf_verify True (cfi_snd (cfil_info w)) \<and>
        cfil_info_buf_verify True (cfi_rcv (cfil_info w)) \<and>
        (\<forall>i < 8. cfil_entry_buf_verify True (cfe_snd (cfi_entries (cfil_info w) i)) \<and>
                  cfil_entry_buf_verify True (cfe_rcv (cfi_entries (cfil_info w) i))))"
  by (auto simp: CFIL_INFO_VERIFY_def cfil_info_verify_def cfil_entry_verify_def)

lemma entry_offsets_step_fields:
  "q_mq (cfe_ctl_q (entry_offsets_step d b)) = q_mq (cfe_ctl_q b)"
  "q_mq (cfe_pending_q (entry_offsets_step d b)) = q_mq (cfe_pending_q b)"
  "q_start (cfe_ctl_q (entry_offsets_step d b)) = q_start (cfe_ctl_q b) + ucast d"
  "q_end (cfe_ctl_q (entry_offsets_step d b)) = q_end (cfe_ctl_q b) + ucast d"
  "q_start (cfe_pending_q (entry_offsets_step d b)) = q_start (cfe_pending_q b) + ucast d"
  "q_end (cfe_pending_q (entry_offsets_step d b)) = q_end (cfe_pending_q b) + ucast d"
  "cfe_peeked (entry_offsets_step d b) = q_start (cfe_ctl_q b) + ucast d"
  "cfe_pass_offset (entry_offsets_step d b) = max (cfe_pass_offset b) (q_start (cfe_ctl_q b) + ucast d)"
  "cfe_peek_offset (entry_offsets_step d b) =
     max (cfe_peek_offset b) (max (cfe_pass_offset b) (q_start (cfe_ctl_q b) + ucast d))"
  by (auto simp: entry_offsets_step_def Let_def max_def)

lemma entry_offsets_step_verify:
  assumes v: "cfil_entry_buf_verify True b"
    and nw: "unat (q_end (cfe_ctl_q b)) + unat d < 2 ^ 64"
  shows "cfil_entry_buf_verify True (entry_offsets_step d b)"
proof -
  have ud: "unat (ucast d :: u64) = unat d" by (rule unat_ucast_32_64)
  from v have o: "q_start (cfe_pending_q b) \<le> q_end (cfe_pending_q b)"
    "q_end (cfe_pending_q b) \<le> q_start (cfe_ctl_q b)" "q_start (cfe_ctl_q b) \<le> q_end (cfe_ctl_q b)"
    by (simp_all add: cfil_entry_buf_verify_def cfil_queue_verify_def)
  have nw3: "unat (q_end (cfe_ctl_q b)) + unat (ucast d :: u64) < 2 ^ 64" using nw ud by simp
  have nw2: "unat (q_start (cfe_ctl_q b)) + unat (ucast d :: u64) < 2 ^ 64"
    using nw3 o(3) by (simp add: word_le_nat_alt)
  have nw1: "unat (q_end (cfe_pending_q b)) + unat (ucast d :: u64) < 2 ^ 64"
    using nw2 o(2) by (simp add: word_le_nat_alt)
  have 1: "q_start (cfe_ctl_q b) + ucast d \<le> q_end (cfe_ctl_q b) + ucast d"
    by (rule u64_add_le_mono [OF o(3) nw3])
  have 2: "q_start (cfe_pending_q b) + ucast d \<le> q_end (cfe_pending_q b) + ucast d"
    by (rule u64_add_le_mono [OF o(1) nw1])
  have 3: "q_end (cfe_pending_q b) + ucast d \<le> q_start (cfe_ctl_q b) + ucast d"
    by (rule u64_add_le_mono [OF o(2) nw2])
  have 4: "cfe_pass_offset (entry_offsets_step d b) \<le> cfe_peek_offset (entry_offsets_step d b)"
    unfolding entry_offsets_step_fields by simp
  from v have qv: "cfil_queue_verify (cfe_ctl_q b)" "cfil_queue_verify (cfe_pending_q b)"
    by (simp_all add: cfil_entry_buf_verify_def)
  have 5: "cfil_queue_verify (cfe_ctl_q (entry_offsets_step d b))"
    using qv(1) 1 unfolding cfil_queue_verify_def entry_offsets_step_fields by simp
  have 6: "cfil_queue_verify (cfe_pending_q (entry_offsets_step d b))"
    using qv(2) 2 unfolding cfil_queue_verify_def entry_offsets_step_fields by simp
  from 3 4 5 6 show ?thesis
    unfolding cfil_entry_buf_verify_def entry_offsets_step_fields by simp
qed


lemma kcunits_distinct: "distinct (map (\<lambda>k. k - 1) kcunits)"
  by (simp add: kcunits_def upt_rec)

lemma kcunits_image: "i \<in> (\<lambda>k. k - 1) ` set kcunits \<longleftrightarrow> i < 8"
proof
  assume "i \<in> (\<lambda>k. k - 1) ` set kcunits"
  thus "i < 8" by (auto simp: kcunits_def)
next
  assume "i < 8"
  hence "Suc i \<in> set kcunits" "i = Suc i - 1" by (simp_all add: kcunits_def)
  thus "i \<in> (\<lambda>k. k - 1) ` set kcunits" by (rule_tac image_eqI)
qed

lemma cfil_update_entry_offsets_Some:
  assumes ok: "cfil_debug w \<longrightarrow>
        cfil_info_buf_verify True (cfi_snd (cfil_info w)) \<and>
        cfil_info_buf_verify True (cfi_rcv (cfil_info w)) \<and>
        (\<forall>i < 8. cfil_entry_buf_verify True (cfe_snd (cfi_entries (cfil_info w) i)) \<and>
                  cfil_entry_buf_verify True (cfe_rcv (cfi_entries (cfil_info w) i)))"
    and nw: "\<forall>k \<in> set kcunits. cfe_filter (entry_at w k) \<noteq> None \<longrightarrow>
        unat (q_end (cfe_ctl_q (entrybuf w k out))) + unat d < 2 ^ 64"
  shows "cfil_update_entry_offsets w out d =
     Some (w\<lparr>cfil_info := (cfil_info w)\<lparr>cfi_entries := (\<lambda>i.
        if i < 8 \<and> cfe_filter (cfi_entries (cfil_info w) i) \<noteq> None
        then buf_upd out (entry_offsets_step d) (cfi_entries (cfil_info w) i)
        else cfi_entries (cfil_info w) i)\<rparr>\<rparr>)"
proof -
  let ?w1 = "w\<lparr>cfil_info := (cfil_info w)\<lparr>cfi_entries := (\<lambda>i.
        if i < 8 \<and> cfe_filter (cfi_entries (cfil_info w) i) \<noteq> None
        then buf_upd out (entry_offsets_step d) (cfi_entries (cfil_info w) i)
        else cfi_entries (cfil_info w) i)\<rparr>\<rparr>"
  have f: "fold (update_entry_offsets_unit out d) kcunits w = ?w1"
    unfolding fold_update_entry_offsets [OF kcunits_distinct] kcunits_image ..
  have nw': "unat (q_end (cfe_ctl_q (buf_of out (cfi_entries (cfil_info w) i)))) + unat d < 2 ^ 64"
    if "i < 8" "cfe_filter (cfi_entries (cfil_info w) i) \<noteq> None" for i
  proof -
    from that(1) have "Suc i \<in> set kcunits" by (simp add: kcunits_def)
    with nw that(2) show ?thesis by (auto simp: entry_at_def entrybuf_def)
  qed
  have "CFIL_INFO_VERIFY ?w1 = Some ()"
    unfolding CFIL_INFO_VERIFY_iff
  proof (intro impI conjI allI)
    assume dbg: "cfil_debug ?w1"
    hence dbg': "cfil_debug w" by simp
    from ok dbg' show "cfil_info_buf_verify True (cfi_snd (cfil_info ?w1))"
      "cfil_info_buf_verify True (cfi_rcv (cfil_info ?w1))" by simp_all
    fix i :: nat assume i: "i < 8"
    from ok dbg' i have e: "cfil_entry_buf_verify True (cfe_snd (cfi_entries (cfil_info w) i))"
      "cfil_entry_buf_verify True (cfe_rcv (cfi_entries (cfil_info w) i))" by simp_all
    show "cfil_entry_buf_verify True (cfe_snd (cfi_entries (cfil_info ?w1) i))"
      using e(1) i nw' [of i] entry_offsets_step_verify [of "cfe_snd (cfi_entries (cfil_info w) i)" d]
      by (auto simp: buf_upd_def buf_of_def)
    show "cfil_entry_buf_verify True (cfe_rcv (cfi_entries (cfil_info ?w1) i))"
      using e(2) i nw' [of i] entry_offsets_step_verify [of "cfe_rcv (cfi_entries (cfil_info w) i)" d]
      by (auto simp: buf_upd_def buf_of_def)
  qed
  thus ?thesis unfolding cfil_update_entry_offsets_def Let_def f by simp
qed

text \<open>
  Claim C9, as stated, for the pass and peek offsets. On \<open>ex_passed\<close> the filter of
  unit 1 has let 1000 bytes pass and nothing is pending. A submit of 100 bytes stays
  under the pass offset of the flow and takes the fast path: it returns 0 and the
  cursors of the control queue move to 100, but the pass and the peek offset of the
  entry stay at 1000; they are not advanced by the 100 bytes of the span.
\<close>

theorem fast_path_leaves_pass_offset:
  "cfi_flags (cfil_info ex_passed) AND CFIF_DROP = 0 \<and>
   cfi_pending_last (cfi_buf_of ex_passed True) + ucast (cfil_data_length (pkt 100)) \<le>
     cfi_pass_offset (cfi_buf_of ex_passed True) \<and>
   cfe_filter (entry_at ex_passed 1) = Some 1 \<and>
   cfe_pass_offset (entrybuf ex_passed 1 True) = 1000 \<and>
   cfe_peek_offset (entrybuf ex_passed 1 True) = 1000 \<and>
   \<not> Option.is_none (cfil_data_common ex_passed True (pkt 100)) \<and>
   snd (the (cfil_data_common ex_passed True (pkt 100))) = 0 \<and>
   q_start (cfe_ctl_q (entrybuf (fst (the (cfil_data_common ex_passed True (pkt 100)))) 1 True)) = 100 \<and>
   cfe_pass_offset (entrybuf (fst (the (cfil_data_common ex_passed True (pkt 100)))) 1 True) = 1000 \<and>
   cfe_peek_offset (entrybuf (fst (the (cfil_data_common ex_passed True (pkt 100)))) 1 True) = 1000"
  by code_simp

text \<open>
  Claim C9, amended. A submit of a packet with data, on a flow that is not dropped and
  (for a datagram flow) stays within the gc limits, whose pending end after the span is
  at most the pass offset of the flow, returns 0 without any event and without any
  external call. For each attached entry the packets of the control queue and of the
  pending queue of the direction stay as they are, the four cursors move by the length
  of the span, the peeked mark is set to the new start of the control queue, the pass
  offset is raised to that start if it was below it, and the peek offset is raised to
  the pass offset if it was below it. The entries that are not attached and the other
  direction do not change; the pending window of the direction moves by the length of
  the span. The state is taken consistent (\<open>CFIL_INFO_VERIFY\<close> and
  \<open>cfil_info_buf_verify\<close> hold) and the cursors do not wrap around \<open>2 ^ 64\<close>.
\<close>

theorem fast_path:
  assumes live: "cfi_flags (cfil_info w) AND CFIF_DROP = 0"
    and len: "cfil_data_length data \<noteq> 0"
    and room: "so_dgram (so w) \<longrightarrow>
        cfi_pending_mbnum (cfi_buf_of w out) + m_mbnum data \<le> cfil_udp_gc_mbuf_num_max w \<and>
        cfi_pending_mbcnt (cfi_buf_of w out) + m_mbcnt data \<le> cfil_udp_gc_mbuf_cnt_max w"
    and fast: "cfi_pending_last (cfi_buf_of w out) + ucast (cfil_data_length data) \<le>
               cfi_pass_offset (cfi_buf_of w out)"
    and ok: "CFIL_INFO_VERIFY w = Some ()"
    and window: "cfil_info_buf_verify (cfil_debug w) (cfi_buf_of w out)"
    and nowrap: "unat (cfi_pending_last (cfi_buf_of w out)) + unat (cfil_data_length data) < 2 ^ 64"
    and nowrap_entries: "\<forall>k \<in> set kcunits. cfe_filter (entry_at w k) \<noteq> None \<longrightarrow>
        unat (q_end (cfe_ctl_q (entrybuf w k out))) + unat (cfil_data_length data) < 2 ^ 64"
  shows "\<exists>w'. cfil_data_common w out data = Some (w', 0) \<and>
           events w' = events w \<and> ext_calls w' = ext_calls w \<and>
           (\<forall>k \<in> set kcunits.
              entrybuf w' k (\<not> out) = entrybuf w k (\<not> out) \<and>
              (cfe_filter (entry_at w k) = None \<longrightarrow> entrybuf w' k out = entrybuf w k out) \<and>
              (cfe_filter (entry_at w k) \<noteq> None \<longrightarrow>
                 q_mq (cfe_ctl_q (entrybuf w' k out)) = q_mq (cfe_ctl_q (entrybuf w k out)) \<and>
                 q_mq (cfe_pending_q (entrybuf w' k out)) = q_mq (cfe_pending_q (entrybuf w k out)) \<and>
                 q_start (cfe_ctl_q (entrybuf w' k out)) =
                   q_start (cfe_ctl_q (entrybuf w k out)) + ucast (cfil_data_length data) \<and>
                 q_end (cfe_ctl_q (entrybuf w' k out)) =
                   q_end (cfe_ctl_q (entrybuf w k out)) + ucast (cfil_data_length data) \<and>
                 q_start (cfe_pending_q (entrybuf w' k out)) =
                   q_start (cfe_pending_q (entrybuf w k out)) + ucast (cfil_data_length data) \<and>
                 q_end (cfe_pending_q (entrybuf w' k out)) =
                   q_end (cfe_pending_q (entrybuf w k out)) + ucast (cfil_data_length data) \<and>
                 cfe_peeked (entrybuf w' k out) =
                   q_start (cfe_ctl_q (entrybuf w k out)) + ucast (cfil_data_length data) \<and>
                 cfe_pass_offset (entrybuf w' k out) =
                   max (cfe_pass_offset (entrybuf w k out))
                       (q_start (cfe_ctl_q (entrybuf w k out)) + ucast (cfil_data_length data)) \<and>
                 cfe_peek_offset (entrybuf w' k out) =
                   max (cfe_peek_offset (entrybuf w k out))
                       (max (cfe_pass_offset (entrybuf w k out))
                            (q_start (cfe_ctl_q (entrybuf w k out)) + ucast (cfil_data_length data))))) \<and>
           cfi_inject_q (cfi_buf_of w' out) = cfi_inject_q (cfi_buf_of w out) \<and>
           cfi_pending_first (cfi_buf_of w' out) =
             cfi_pending_first (cfi_buf_of w out) + ucast (cfil_data_length data) \<and>
           cfi_pending_last (cfi_buf_of w' out) =
             cfi_pending_last (cfi_buf_of w out) + ucast (cfil_data_length data) \<and>
           cfi_buf_of w' (\<not> out) = cfi_buf_of w (\<not> out)"
proof -
  let ?d = "cfil_data_length data"
  define w1 where "w1 = (if out
                    then w\<lparr>cfil_info := (cfil_info w)\<lparr>cfi_byte_outbound_count :=
                           cfi_byte_outbound_count (cfil_info w) + ucast ?d\<rparr>\<rparr>
                    else w\<lparr>cfil_info := (cfil_info w)\<lparr>cfi_byte_inbound_count :=
                           cfi_byte_inbound_count (cfil_info w) + ucast ?d\<rparr>\<rparr>)"
  define w2 where "w2 = map_cfi_buf (\<lambda>b. b\<lparr>cfi_pending_last := cfi_pending_last b + ucast ?d,
                                        cfi_pending_mbcnt := cfi_pending_mbcnt b + m_mbcnt data,
                                        cfi_pending_mbnum := cfi_pending_mbnum b + m_mbnum data\<rparr>)
                     out w1"
  define w3 where "w3 = w2\<lparr>cfil_info := (cfil_info w2)\<lparr>cfi_entries := (\<lambda>i.
        if i < 8 \<and> cfe_filter (cfi_entries (cfil_info w2) i) \<noteq> None
        then buf_upd out (entry_offsets_step ?d) (cfi_entries (cfil_info w2) i)
        else cfi_entries (cfil_info w2) i)\<rparr>\<rparr>"
  define w4 where "w4 = map_cfi_buf
                                  (\<lambda>b. b\<lparr>cfi_pending_first := cfi_pending_first b + ucast ?d,
                                         cfi_pending_mbcnt := cfi_pending_mbcnt b - m_mbcnt data,
                                         cfi_pending_mbnum := cfi_pending_mbnum b - m_mbnum data\<rparr>)
                                  out w3"
  have ud: "unat (ucast ?d :: u64) = unat ?d" by (rule unat_ucast_32_64)
  from window have fl: "cfi_pending_first (cfi_buf_of w out) \<le> cfi_pending_last (cfi_buf_of w out)"
    and iq: "cfil_debug w \<longrightarrow> cfil_queue_verify (cfi_inject_q (cfi_buf_of w out))"
    by (simp_all add: cfil_info_buf_verify_def)
  have nw: "unat (cfi_pending_last (cfi_buf_of w out)) + unat (ucast ?d :: u64) < 2 ^ 64"
    using nowrap ud by simp
  have le1: "cfi_pending_first (cfi_buf_of w out) + ucast ?d \<le> cfi_pending_last (cfi_buf_of w out) + ucast ?d"
    by (rule u64_add_le_mono [OF fl nw])
  have "unat (cfi_pending_last (cfi_buf_of w out) + ucast ?d) =
        unat (cfi_pending_last (cfi_buf_of w out)) + unat (ucast ?d :: u64)"
    using nw by (simp add: unat_word_ariths take_bit_nat_eq_self take_bit_eq_mod [symmetric])
  hence le0: "cfi_pending_first (cfi_buf_of w out) \<le> cfi_pending_last (cfi_buf_of w out) + ucast ?d"
    using fl by (simp add: word_le_nat_alt)
  have buf2: "cfi_buf_of w2 out = (cfi_buf_of w out)\<lparr>
        cfi_pending_last := cfi_pending_last (cfi_buf_of w out) + ucast ?d,
        cfi_pending_mbcnt := cfi_pending_mbcnt (cfi_buf_of w out) + m_mbcnt data,
        cfi_pending_mbnum := cfi_pending_mbnum (cfi_buf_of w out) + m_mbnum data\<rparr>"
    "cfi_buf_of w2 (\<not> out) = cfi_buf_of w (\<not> out)"
    by (auto simp: w2_def w1_def cfi_buf_of_def map_cfi_buf_def)
  have g2: "cfil_debug w2 = cfil_debug w" "so w2 = so w" "events w2 = events w"
    "ext_calls w2 = ext_calls w" "cfil_udp_gc_mbuf_num_max w2 = cfil_udp_gc_mbuf_num_max w"
    "cfil_udp_gc_mbuf_cnt_max w2 = cfil_udp_gc_mbuf_cnt_max w"
    "cfi_entries (cfil_info w2) = cfi_entries (cfil_info w)"
    by (auto simp: w2_def w1_def map_cfi_buf_def)
  have notover: "\<not> (so_dgram (so w2) \<and>
             (cfi_pending_mbnum (cfi_buf_of w2 out) > cfil_udp_gc_mbuf_num_max w2 \<or>
              cfi_pending_mbcnt (cfi_buf_of w2 out) > cfil_udp_gc_mbuf_cnt_max w2))"
    using room unfolding g2 buf2 by (auto simp: not_less)
  have v2: "cfil_info_buf_verify (cfil_debug w2) (cfi_buf_of w2 out)"
    using le0 iq unfolding g2 buf2 by (simp add: cfil_info_buf_verify_def)
  have fast2: "cfi_pending_last (cfi_buf_of w2 out) \<le> cfi_pass_offset (cfi_buf_of w2 out)"
    using fast unfolding buf2 by simp
  have both: "cfi_snd (cfil_info w2) = cfi_buf_of w2 True" "cfi_rcv (cfil_info w2) = cfi_buf_of w2 False"
    "cfi_snd (cfil_info w) = cfi_buf_of w True" "cfi_rcv (cfil_info w) = cfi_buf_of w False"
    by (simp_all add: cfi_buf_of_def)
  from ok have ok': "cfil_debug w \<longrightarrow>
        cfil_info_buf_verify True (cfi_buf_of w True) \<and>
        cfil_info_buf_verify True (cfi_buf_of w False) \<and>
        (\<forall>i < 8. cfil_entry_buf_verify True (cfe_snd (cfi_entries (cfil_info w) i)) \<and>
                  cfil_entry_buf_verify True (cfe_rcv (cfi_entries (cfil_info w) i)))"
    unfolding CFIL_INFO_VERIFY_iff both .
  have bv2: "cfil_debug w \<Longrightarrow> cfil_info_buf_verify True (cfi_buf_of w2 oo)" for oo
  proof (cases "oo = out")
    case True
    assume "cfil_debug w"
    with v2 True show ?thesis by (simp add: g2)
  next
    case False
    assume "cfil_debug w"
    from False have "oo = (\<not> out)" by auto
    with ok' \<open>cfil_debug w\<close> buf2(2) show ?thesis by (cases out) auto
  qed
  have ok2: "cfil_debug w2 \<longrightarrow>
        cfil_info_buf_verify True (cfi_snd (cfil_info w2)) \<and>
        cfil_info_buf_verify True (cfi_rcv (cfil_info w2)) \<and>
        (\<forall>i < 8. cfil_entry_buf_verify True (cfe_snd (cfi_entries (cfil_info w2) i)) \<and>
                  cfil_entry_buf_verify True (cfe_rcv (cfi_entries (cfil_info w2) i)))"
    unfolding both using ok' bv2 by (simp add: g2)
  have nw2: "\<forall>k \<in> set kcunits. cfe_filter (entry_at w2 k) \<noteq> None \<longrightarrow>
        unat (q_end (cfe_ctl_q (entrybuf w2 k out))) + unat ?d < 2 ^ 64"
    using nowrap_entries by (simp add: entry_at_def entrybuf_def g2)
  have up: "cfil_update_entry_offsets w2 out ?d = Some w3"
    unfolding w3_def by (rule cfil_update_entry_offsets_Some [OF ok2 nw2])
  hence v3: "CFIL_INFO_VERIFY w3 = Some ()"
    by (auto simp: cfil_update_entry_offsets_def Let_def CFIL_INFO_VERIFY_bind_Some)
  have buf3: "cfi_buf_of w3 oo = cfi_buf_of w2 oo" for oo by (simp add: w3_def cfi_buf_of_def)
  have g3: "cfil_debug w3 = cfil_debug w" "events w3 = events w" "ext_calls w3 = ext_calls w"
    by (simp_all add: w3_def g2)
  have buf4: "cfi_buf_of w4 out = (cfi_buf_of w out)\<lparr>
        cfi_pending_last := cfi_pending_last (cfi_buf_of w out) + ucast ?d,
        cfi_pending_first := cfi_pending_first (cfi_buf_of w out) + ucast ?d\<rparr>"
    "cfi_buf_of w4 (\<not> out) = cfi_buf_of w (\<not> out)"
    unfolding w4_def cfi_buf_of_map_cfi_buf buf3 buf2 by simp_all
  have g4: "cfil_debug w4 = cfil_debug w" "events w4 = events w" "ext_calls w4 = ext_calls w"
    "cfi_entries (cfil_info w4) = cfi_entries (cfil_info w3)"
    by (auto simp: w4_def g3 map_cfi_buf_def)
  have v4: "cfil_info_buf_verify (cfil_debug w4) (cfi_buf_of w4 out)"
    using le1 iq unfolding g4 buf4 by (simp add: cfil_info_buf_verify_def)
  have bv4: "cfil_debug w \<Longrightarrow> cfil_info_buf_verify True (cfi_buf_of w4 oo)" for oo
  proof (cases "oo = out")
    case True
    assume "cfil_debug w"
    with v4 True show ?thesis by (simp add: g4)
  next
    case False
    assume "cfil_debug w"
    from False have "oo = (\<not> out)" by auto
    with ok' \<open>cfil_debug w\<close> buf4(2) show ?thesis by (cases out) auto
  qed
  have both4: "cfi_snd (cfil_info w4) = cfi_buf_of w4 True" "cfi_rcv (cfil_info w4) = cfi_buf_of w4 False"
    by (simp_all add: cfi_buf_of_def)
  have v4': "CFIL_INFO_VERIFY w4 = Some ()"
    using v3 bv4 unfolding CFIL_INFO_VERIFY_iff both4 g4 g3 by simp
  have run: "cfil_data_common w out data = Some (w4, 0)"
    unfolding cfil_data_common_def Let_def w1_def [symmetric] w2_def [symmetric]
    using live len notover v2 fast2 up v4 v4'
    by (simp add: w4_def [symmetric] CFIL_INFO_VERIFY_bind_Some)
  have ent: "entrybuf w4 k oo =
      (if k - 1 < 8 \<and> cfe_filter (entry_at w k) \<noteq> None \<and> oo = out
       then entry_offsets_step ?d (entrybuf w k oo) else entrybuf w k oo)" for k oo
    unfolding entrybuf_def entry_at_def g4 by (auto simp: w3_def g2 buf_upd_def buf_of_def)
  have ent': "entrybuf w4 k oo =
      (if cfe_filter (entry_at w k) \<noteq> None \<and> oo = out
       then entry_offsets_step ?d (entrybuf w k oo) else entrybuf w k oo)"
    if "k \<in> set kcunits" for k oo
  proof -
    from that have "k - 1 < 8" by (auto simp: kcunits_def)
    thus ?thesis unfolding ent by simp
  qed
  show ?thesis
  proof (intro exI conjI ballI impI)
    show "cfil_data_common w out data = Some (w4, 0)" by (rule run)
  qed (simp_all add: g4 buf4 ent' entry_offsets_step_fields)
qed

theorem fast_path_witness:
  "cfi_flags (cfil_info ex_passed) AND CFIF_DROP = 0 \<and>
   cfil_data_length (pkt 100) \<noteq> 0 \<and>
   cfi_pending_last (cfi_buf_of ex_passed True) + ucast (cfil_data_length (pkt 100)) \<le>
     cfi_pass_offset (cfi_buf_of ex_passed True) \<and>
   CFIL_INFO_VERIFY ex_passed = Some () \<and>
   (\<exists>w'. cfil_data_common ex_passed True (pkt 100) = Some (w', 0) \<and>
      events w' = events ex_passed \<and>
      q_mq (cfe_ctl_q (entrybuf w' 1 True)) = [] \<and>
      q_start (cfe_ctl_q (entrybuf w' 1 True)) = 100 \<and>
      q_end (cfe_ctl_q (entrybuf w' 1 True)) = 100 \<and>
      cfe_peeked (entrybuf w' 1 True) = 100 \<and>
      cfe_pass_offset (entrybuf w' 1 True) = 1000 \<and>
      cfe_peek_offset (entrybuf w' 1 True) = 1000 \<and>
      cfi_pending_first (cfi_buf_of w' True) = 100 \<and>
      cfi_pending_last (cfi_buf_of w' True) = 100)"
proof -
  have live: "cfi_flags (cfil_info ex_passed) AND CFIF_DROP = 0" by code_simp
  have len: "cfil_data_length (pkt 100) \<noteq> 0" by code_simp
  have room: "so_dgram (so ex_passed) \<longrightarrow>
        cfi_pending_mbnum (cfi_buf_of ex_passed True) + m_mbnum (pkt 100) \<le> cfil_udp_gc_mbuf_num_max ex_passed \<and>
        cfi_pending_mbcnt (cfi_buf_of ex_passed True) + m_mbcnt (pkt 100) \<le> cfil_udp_gc_mbuf_cnt_max ex_passed"
    by code_simp
  have fast: "cfi_pending_last (cfi_buf_of ex_passed True) + ucast (cfil_data_length (pkt 100)) \<le>
               cfi_pass_offset (cfi_buf_of ex_passed True)" by code_simp
  have ok: "CFIL_INFO_VERIFY ex_passed = Some ()" by code_simp
  have window: "cfil_info_buf_verify (cfil_debug ex_passed) (cfi_buf_of ex_passed True)" by code_simp
  have nowrap: "unat (cfi_pending_last (cfi_buf_of ex_passed True)) + unat (cfil_data_length (pkt 100)) < 2 ^ 64"
    by (simp add: ex_passed_def ex_held_defs cfil_data_length_def)
  have nowrap_entries: "\<forall>k \<in> set kcunits. cfe_filter (entry_at ex_passed k) \<noteq> None \<longrightarrow>
        unat (q_end (cfe_ctl_q (entrybuf ex_passed k True))) + unat (cfil_data_length (pkt 100)) < 2 ^ 64"
    by (simp add: ex_passed_def ex_held_defs cfil_data_length_def)
  have pre: "1 \<in> set kcunits" "cfe_filter (entry_at ex_passed 1) \<noteq> None"
    "q_mq (cfe_ctl_q (entrybuf ex_passed 1 True)) = []"
    "q_start (cfe_ctl_q (entrybuf ex_passed 1 True)) = 0"
    "q_end (cfe_ctl_q (entrybuf ex_passed 1 True)) = 0"
    "cfe_pass_offset (entrybuf ex_passed 1 True) = 1000"
    "cfe_peek_offset (entrybuf ex_passed 1 True) = 1000"
    "cfi_pending_first (cfi_buf_of ex_passed True) = 0"
    "cfi_pending_last (cfi_buf_of ex_passed True) = 0"
    "(ucast (cfil_data_length (pkt 100)) :: u64) = 100"
    by code_simp+
  from fast_path [OF live len room fast ok window nowrap nowrap_entries]
  obtain w' where all: "cfil_data_common ex_passed True (pkt 100) = Some (w', 0) \<and>
           events w' = events ex_passed \<and> ext_calls w' = ext_calls ex_passed \<and>
           (\<forall>k \<in> set kcunits.
              entrybuf w' k (\<not> True) = entrybuf ex_passed k (\<not> True) \<and>
              (cfe_filter (entry_at ex_passed k) = None \<longrightarrow> entrybuf w' k True = entrybuf ex_passed k True) \<and>
              (cfe_filter (entry_at ex_passed k) \<noteq> None \<longrightarrow>
                 q_mq (cfe_ctl_q (entrybuf w' k True)) = q_mq (cfe_ctl_q (entrybuf ex_passed k True)) \<and>
                 q_mq (cfe_pending_q (entrybuf w' k True)) = q_mq (cfe_pending_q (entrybuf ex_passed k True)) \<and>
                 q_start (cfe_ctl_q (entrybuf w' k True)) =
                   q_start (cfe_ctl_q (entrybuf ex_passed k True)) + ucast (cfil_data_length (pkt 100)) \<and>
                 q_end (cfe_ctl_q (entrybuf w' k True)) =
                   q_end (cfe_ctl_q (entrybuf ex_passed k True)) + ucast (cfil_data_length (pkt 100)) \<and>
                 q_start (cfe_pending_q (entrybuf w' k True)) =
                   q_start (cfe_pending_q (entrybuf ex_passed k True)) + ucast (cfil_data_length (pkt 100)) \<and>
                 q_end (cfe_pending_q (entrybuf w' k True)) =
                   q_end (cfe_pending_q (entrybuf ex_passed k True)) + ucast (cfil_data_length (pkt 100)) \<and>
                 cfe_peeked (entrybuf w' k True) =
                   q_start (cfe_ctl_q (entrybuf ex_passed k True)) + ucast (cfil_data_length (pkt 100)) \<and>
                 cfe_pass_offset (entrybuf w' k True) =
                   max (cfe_pass_offset (entrybuf ex_passed k True))
                       (q_start (cfe_ctl_q (entrybuf ex_passed k True)) + ucast (cfil_data_length (pkt 100))) \<and>
                 cfe_peek_offset (entrybuf w' k True) =
                   max (cfe_peek_offset (entrybuf ex_passed k True))
                       (max (cfe_pass_offset (entrybuf ex_passed k True))
                            (q_start (cfe_ctl_q (entrybuf ex_passed k True)) + ucast (cfil_data_length (pkt 100)))))) \<and>
           cfi_inject_q (cfi_buf_of w' True) = cfi_inject_q (cfi_buf_of ex_passed True) \<and>
           cfi_pending_first (cfi_buf_of w' True) =
             cfi_pending_first (cfi_buf_of ex_passed True) + ucast (cfil_data_length (pkt 100)) \<and>
           cfi_pending_last (cfi_buf_of w' True) =
             cfi_pending_last (cfi_buf_of ex_passed True) + ucast (cfil_data_length (pkt 100)) \<and>
           cfi_buf_of w' (\<not> True) = cfi_buf_of ex_passed (\<not> True)"
    by (rule exE)
  note r = all [THEN conjunct1] all [THEN conjunct2, THEN conjunct1]
  note ents = all [THEN conjunct2, THEN conjunct2, THEN conjunct2, THEN conjunct1]
  note c = all [THEN conjunct2, THEN conjunct2, THEN conjunct2, THEN conjunct2, THEN conjunct2]
  note e1 = ents [rule_format, OF pre(1), THEN conjunct2, THEN conjunct2, rule_format, OF pre(2)]
  show ?thesis
    using live len fast ok r e1 c unfolding pre(3-10) by (intro conjI exI [of _ w']) simp_all
qed

subsection \<open>The drop verdict\<close>

lemma fold_drain_entry:
  assumes "distinct (map (\<lambda>k. k - 1) ks)"
  shows "fold (drain_entry out) ks w =
     w\<lparr>cfil_info := (cfil_info w)\<lparr>cfi_entries := (\<lambda>i.
        if i \<in> (\<lambda>k. k - 1) ` set ks
        then buf_upd out (\<lambda>b. b\<lparr>cfe_ctl_q := cfil_queue_init, cfe_pending_q := cfil_queue_init\<rparr>)
               (cfi_entries (cfil_info w) i)
        else cfi_entries (cfil_info w) i)\<rparr>\<rparr>"
  using assms
proof (induction ks arbitrary: w)
  case Nil
  then show ?case by simp
next
  case (Cons k ks)
  let ?w1 = "drain_entry out k w"
  from Cons.prems have nk: "k - 1 \<notin> (\<lambda>k. k - 1) ` set ks" and ds: "distinct (map (\<lambda>k. k - 1) ks)"
    by auto
  have "fold (drain_entry out) (k # ks) w = fold (drain_entry out) ks ?w1" by simp
  also have "\<dots> = ?w1\<lparr>cfil_info := (cfil_info ?w1)\<lparr>cfi_entries := (\<lambda>i.
        if i \<in> (\<lambda>k. k - 1) ` set ks
        then buf_upd out (\<lambda>b. b\<lparr>cfe_ctl_q := cfil_queue_init, cfe_pending_q := cfil_queue_init\<rparr>)
               (cfi_entries (cfil_info ?w1) i)
        else cfi_entries (cfil_info ?w1) i)\<rparr>\<rparr>"
    by (rule Cons.IH [OF ds])
  also have "\<dots> = w\<lparr>cfil_info := (cfil_info w)\<lparr>cfi_entries := (\<lambda>i.
        if i \<in> (\<lambda>k. k - 1) ` set (k # ks)
        then buf_upd out (\<lambda>b. b\<lparr>cfe_ctl_q := cfil_queue_init, cfe_pending_q := cfil_queue_init\<rparr>)
               (cfi_entries (cfil_info w) i)
        else cfi_entries (cfil_info w) i)\<rparr>\<rparr>"
    using nk
    by (auto simp: drain_entry_def map_entrybuf_def map_entry_def cfil_queue_drain_eq
        fun_eq_iff intro!: arg_cong [where f = "\<lambda>x. cfil_info_update x w"])
  finally show ?case .
qed

lemma flush_direction_eq:
  "flush_direction out w =
     map_cfi_buf (\<lambda>b. b\<lparr>cfi_inject_q := cfil_queue_init\<rparr>) out
       (w\<lparr>cfil_info := (cfil_info w)\<lparr>cfi_entries := (\<lambda>i.
          if i < 8
          then buf_upd out (\<lambda>b. b\<lparr>cfe_ctl_q := cfil_queue_init, cfe_pending_q := cfil_queue_init\<rparr>)
                 (cfi_entries (cfil_info w) i)
          else cfi_entries (cfil_info w) i)\<rparr>\<rparr>)"
  unfolding flush_direction_def fold_drain_entry [OF kcunits_distinct] kcunits_image
  by (simp add: cfil_queue_drain_eq)

lemma flush_direction_fields:
  "cfil_debug (flush_direction out w) = cfil_debug w"
  "so (flush_direction out w) = so w"
  "events (flush_direction out w) = events w"
  "ext_calls (flush_direction out w) = ext_calls w"
  "cfi_flags (cfil_info (flush_direction out w)) = cfi_flags (cfil_info w)"
  "cfe_flags (cfi_entries (cfil_info (flush_direction out w)) i) = cfe_flags (cfi_entries (cfil_info w) i)"
  "cfe_filter (cfi_entries (cfil_info (flush_direction out w)) i) = cfe_filter (cfi_entries (cfil_info w) i)"
  "cfi_buf_of (flush_direction out w) oo =
     (if oo = out then (cfi_buf_of w oo)\<lparr>cfi_inject_q := cfil_queue_init\<rparr> else cfi_buf_of w oo)"
  "buf_of oo (cfi_entries (cfil_info (flush_direction out w)) i) =
     (if oo = out \<and> i < 8
      then (buf_of oo (cfi_entries (cfil_info w) i))\<lparr>cfe_ctl_q := cfil_queue_init, cfe_pending_q := cfil_queue_init\<rparr>
      else buf_of oo (cfi_entries (cfil_info w) i))"
  unfolding flush_direction_eq
  by (auto simp: map_cfi_buf_def cfi_buf_of_def buf_upd_def buf_of_def)

lemma queue_init_verify [simp]: "cfil_queue_verify cfil_queue_init"
  by (simp add: cfil_queue_verify_def cfil_queue_init_def queuesize_def)

lemma queue_init_fields [simp]:
  "q_start cfil_queue_init = 0" "q_end cfil_queue_init = 0" "q_mq cfil_queue_init = []"
  by (simp_all add: cfil_queue_init_def)

lemma flush_verify:
  assumes "CFIL_INFO_VERIFY w = Some ()"
  shows "CFIL_INFO_VERIFY (flush_direction False (flush_direction True w)) = Some ()"
proof -
  have both: "cfi_snd (cfil_info v) = cfi_buf_of v True" "cfi_rcv (cfil_info v) = cfi_buf_of v False"
    "cfe_snd e = buf_of True e" "cfe_rcv e = buf_of False e" for v e
    by (simp_all add: cfi_buf_of_def buf_of_def)
  from assms show ?thesis
    unfolding CFIL_INFO_VERIFY_iff both flush_direction_fields
    by (auto simp: cfil_info_buf_verify_def cfil_entry_buf_verify_def)
qed


lemma or_and_same: "(x OR m) AND m = (m :: 'a :: len word)"
  by (rule bit_eqI) (auto simp: bit_and_iff bit_or_iff)

lemma drop_keeps_close_wait: "(f OR CFIF_DROP) AND CFIF_CLOSE_WAIT = f AND CFIF_CLOSE_WAIT"
proof -
  have "(f OR CFIF_DROP) AND CFIF_CLOSE_WAIT = (f AND CFIF_CLOSE_WAIT) OR (CFIF_DROP AND CFIF_CLOSE_WAIT)"
    by (rule bit.conj_disj_distrib2)
  thus ?thesis by simp
qed

lemma cfil_filters_attached_emit [simp]: "cfil_filters_attached (emit ev w) = cfil_filters_attached w"
  by (simp add: cfil_filters_attached_def emit_def split: option.split)

lemma dropped_submit:
  assumes "cfi_flags (cfil_info w) AND CFIF_DROP \<noteq> 0" "CFIL_INFO_VERIFY w = Some ()"
  shows "cfil_data_common w out data = Some (w, EPIPE)"
  using assms by (simp add: cfil_data_common_def)

text \<open>
  Claim C4, as stated, for the wakeup. On \<open>ex_closing\<close> the socket is being closed and
  waits on the flow, and the filters of units 1 and 2 are attached. The drop verdict of
  the filter of unit 1 latches the drop flag and marks the socket defunct, but the filter
  of unit 2 is still attached, so \<open>wakeup\<close> is not called: the only event is the
  defunct.
\<close>

theorem drop_without_wakeup:
  "so_content_filter (so ex_closing) \<and>
   cfe_filter (entry_at ex_closing 1) = Some 1 \<and>
   cfi_flags (cfil_info ex_closing) AND CFIF_CLOSE_WAIT = CFIF_CLOSE_WAIT \<and>
   \<not> Option.is_none (cfil_action_drop ex_closing 1) \<and>
   cfi_flags (cfil_info (fst (the (cfil_action_drop ex_closing 1)))) AND CFIF_DROP = CFIF_DROP \<and>
   cfil_filters_attached (fst (the (cfil_action_drop ex_closing 1))) \<and>
   events (fst (the (cfil_action_drop ex_closing 1))) = [EvDefunct]"
  by code_simp

text \<open>
  Claim C4, amended. On a socket that has the content filter flag, \<open>cfil_action_drop\<close> for
  an attached entry, from a consistent state, returns with the drop flag of the flow
  set, the control queue and the pending queue of every entry and the inject queue
  empty with cursors 0 in both directions, and the entry marked detached. \<open>wakeup\<close> is
  called exactly when the flow waits in close and no filter is attached any more; the
  socket is marked defunct when it has no flow database and \<open>sosetdefunct\<close> and
  \<open>sodefunct\<close> succeed. From the state reached every submit returns \<open>EPIPE\<close> and leaves
  that state as it is, so every later submit does as well.
\<close>

theorem drop_is_terminal:
  assumes cf: "so_content_filter (so w)"
    and att: "cfe_filter (entry_at w k) \<noteq> None"
    and ok: "CFIL_INFO_VERIFY w = Some ()"
  shows "\<exists>w' e. cfil_action_drop w k = Some (w', e) \<and>
     cfi_flags (cfil_info w') AND CFIF_DROP \<noteq> 0 \<and>
     (\<forall>k' \<in> set kcunits. \<forall>out.
        cfe_ctl_q (entrybuf w' k' out) = cfil_queue_init \<and>
        cfe_pending_q (entrybuf w' k' out) = cfil_queue_init) \<and>
     (\<forall>out. cfi_inject_q (cfi_buf_of w' out) = cfil_queue_init) \<and>
     cfe_flags (entry_at w' k) AND CFEF_CFIL_DETACHED \<noteq> 0 \<and>
     events w' =
       (if cfi_flags (cfil_info w) AND CFIF_CLOSE_WAIT \<noteq> 0 \<and> \<not> cfil_filters_attached w'
        then [EvWakeup] else []) @
       (if so_flow_db (so w) = None \<and> ext_results w (ext_calls w) = 0 \<and>
           ext_results w (Suc (ext_calls w)) = 0
        then [EvDefunct] else []) @ events w \<and>
     (\<forall>out data. cfil_data_common w' out data = Some (w', EPIPE))"
proof -
  define w1 where "w1 = map_cfi_flags (\<lambda>f. f OR CFIF_DROP) w"
  define st where "st = (if so_flow_db (so w1) = None
               then (let (r1, wa) = ext_call w1 in
                     if r1 \<noteq> 0 then (wa, r1)
                     else (let (r2, wb) = ext_call wa in
                           if r2 \<noteq> 0 then (wb, r2)
                           else (emit EvDefunct (wb\<lparr>so := (so wb)\<lparr>so_defunct := True\<rparr>\<rparr>), r2)))
               else (w1, 0))"
  define w2 where "w2 = fst st"
  define w3 where "w3 = map_entry (\<lambda>e. e\<lparr>cfe_flags := cfe_flags e OR CFEF_CFIL_DETACHED\<rparr>) k w2"
  define w4 where "w4 = flush_direction False (flush_direction True w3)"
  define w5 where "w5 = (if cfi_flags (cfil_info w4) AND CFIF_CLOSE_WAIT \<noteq> 0 \<and>
                       \<not> cfil_filters_attached w4
                    then emit EvWakeup w4 else w4)"
  have g1: "cfil_info w1 = (cfil_info w)\<lparr>cfi_flags := cfi_flags (cfil_info w) OR CFIF_DROP\<rparr>"
    "cfil_debug w1 = cfil_debug w" "so w1 = so w" "events w1 = events w"
    "ext_calls w1 = ext_calls w" "ext_results w1 = ext_results w"
    by (simp_all add: w1_def map_cfi_flags_def)
  have g2: "cfil_info w2 = cfil_info w1" "cfil_debug w2 = cfil_debug w"
    "so_content_filter (so w2) = so_content_filter (so w)"
    "events w2 = (if so_flow_db (so w) = None \<and> ext_results w (ext_calls w) = 0 \<and>
           ext_results w (Suc (ext_calls w)) = 0 then [EvDefunct] else []) @ events w"
    unfolding w2_def st_def
    by (auto simp: g1 ext_call_def emit_def Let_def split_def)
  have dv3: "dv w3 = dv w2" unfolding w3_def by simp
  have "CFIL_INFO_VERIFY w1 = Some ()"
    using ok dv_eqD(11) [OF dv_map_cfi_flags, of "\<lambda>f. f OR CFIF_DROP" w] by (simp add: w1_def)
  hence "CFIL_INFO_VERIFY w2 = Some ()"
    unfolding CFIL_INFO_VERIFY_def g2 g1 by simp
  hence v3: "CFIL_INFO_VERIFY w3 = Some ()" using dv_eqD(11) [OF dv3] by simp
  have v4: "CFIL_INFO_VERIFY w4 = Some ()" unfolding w4_def by (rule flush_verify [OF v3])
  have g3: "so w3 = so w2" "events w3 = events w2"
    "cfi_flags (cfil_info w3) = cfi_flags (cfil_info w) OR CFIF_DROP"
    "cfe_flags (cfi_entries (cfil_info w3) (k - 1)) AND CFEF_CFIL_DETACHED \<noteq> 0"
    unfolding w3_def by (simp_all add: map_entry_def g2 g1 or_and_same)
  have fl: "cfil_flush_queues w3 = Some w4"
    using cf v4 unfolding cfil_flush_queues_def Let_def g3 g2 w4_def [symmetric] by simp
  have g4: "events w4 = events w2" "cfi_flags (cfil_info w4) = cfi_flags (cfil_info w) OR CFIF_DROP"
    "cfe_flags (cfi_entries (cfil_info w4) (k - 1)) AND CFEF_CFIL_DETACHED \<noteq> 0"
    unfolding w4_def flush_direction_fields by (rule g3)+
  have q4: "cfi_buf_of w4 oo = (cfi_buf_of w3 oo)\<lparr>cfi_inject_q := cfil_queue_init\<rparr>"
    "i < 8 \<Longrightarrow> buf_of oo (cfi_entries (cfil_info w4) i) =
       (buf_of oo (cfi_entries (cfil_info w3) i))\<lparr>cfe_ctl_q := cfil_queue_init, cfe_pending_q := cfil_queue_init\<rparr>"
    for oo i
    unfolding w4_def flush_direction_fields by (cases oo; simp)+
  from att have att': "(cfe_filter (entry_at w k) = None) = False" by simp
  have eq: "cfil_action_drop w k = (cfil_flush_queues w3 \<bind> (\<lambda>w4.
      Some (if cfi_flags (cfil_info w4) AND CFIF_CLOSE_WAIT \<noteq> 0 \<and> \<not> cfil_filters_attached w4
            then emit EvWakeup w4 else w4, snd st)))"
    unfolding w3_def w2_def st_def w1_def cfil_action_drop_def Let_def split_def att'
    using cf by (simp only: not_True_eq_False if_False)
  have run: "cfil_action_drop w k = Some (w5, snd st)"
    unfolding eq fl w5_def by simp
  have g5: "cfil_info w5 = cfil_info w4" "cfil_debug w5 = cfil_debug w4"
    by (simp_all add: w5_def emit_def)
  have g5': "cfil_filters_attached w5 = cfil_filters_attached w4"
    by (simp add: w5_def)
  have v5: "CFIL_INFO_VERIFY w5 = Some ()"
    using v4 unfolding CFIL_INFO_VERIFY_def g5 .
  have d5: "cfi_flags (cfil_info w5) AND CFIF_DROP \<noteq> 0"
    unfolding g5 g4 by (simp add: or_and_same)
  have cw: "cfi_flags (cfil_info w4) AND CFIF_CLOSE_WAIT = cfi_flags (cfil_info w) AND CFIF_CLOSE_WAIT"
    unfolding g4 by (rule drop_keeps_close_wait)
  have ev: "events w5 =
       (if cfi_flags (cfil_info w) AND CFIF_CLOSE_WAIT \<noteq> 0 \<and> \<not> cfil_filters_attached w5
        then [EvWakeup] else []) @
       (if so_flow_db (so w) = None \<and> ext_results w (ext_calls w) = 0 \<and>
           ext_results w (Suc (ext_calls w)) = 0
        then [EvDefunct] else []) @ events w"
    unfolding g5' unfolding w5_def cw by (simp add: emit_def g4 g2)
  have qs: "cfe_ctl_q (entrybuf w5 k' out) = cfil_queue_init \<and>
        cfe_pending_q (entrybuf w5 k' out) = cfil_queue_init" if "k' \<in> set kcunits" for k' out
  proof -
    from that have "k' - 1 < 8" by (auto simp: kcunits_def)
    from q4(2) [OF this, of out] show ?thesis unfolding entrybuf_def entry_at_def g5 by simp
  qed
  have iq: "cfi_inject_q (cfi_buf_of w5 out) = cfil_queue_init" for out
  proof -
    have "cfi_buf_of w5 out = cfi_buf_of w4 out" by (simp add: cfi_buf_of_def g5)
    thus ?thesis unfolding q4(1) by simp
  qed
  have det: "cfe_flags (entry_at w5 k) AND CFEF_CFIL_DETACHED \<noteq> 0"
    unfolding entry_at_def g5 by (rule g4)
  from run d5 qs iq det ev dropped_submit [OF d5 v5] show ?thesis by blast
qed

theorem drop_is_terminal_witness:
  "so_content_filter (so ex_held_closing) \<and>
   cfe_filter (entry_at ex_held_closing 1) \<noteq> None \<and>
   CFIL_INFO_VERIFY ex_held_closing = Some () \<and>
   q_mq (cfe_ctl_q (entrybuf ex_held_closing 1 True)) = [pkt 50] \<and>
   (\<exists>w' e. cfil_action_drop ex_held_closing 1 = Some (w', e) \<and>
      cfi_flags (cfil_info w') AND CFIF_DROP \<noteq> 0 \<and>
      cfe_ctl_q (entrybuf w' 1 True) = cfil_queue_init \<and>
      cfe_flags (entry_at w' 1) AND CFEF_CFIL_DETACHED \<noteq> 0 \<and>
      events w' = [EvWakeup, EvDefunct] \<and>
      cfil_data_common w' True (pkt 10) = Some (w', EPIPE))"
proof -
  have h: "so_content_filter (so ex_held_closing)" "cfe_filter (entry_at ex_held_closing 1) \<noteq> None"
    "CFIL_INFO_VERIFY ex_held_closing = Some ()"
    "q_mq (cfe_ctl_q (entrybuf ex_held_closing 1 True)) = [pkt 50]"
    by code_simp+
  have k: "1 \<in> set kcunits" by code_simp
  have ev: "events (fst (the (cfil_action_drop ex_held_closing 1))) = [EvWakeup, EvDefunct]"
    by code_simp
  from drop_is_terminal [OF h(1-3)]
  obtain w' e where r: "cfil_action_drop ex_held_closing 1 = Some (w', e)"
    and d: "cfi_flags (cfil_info w') AND CFIF_DROP \<noteq> 0"
    and q: "\<forall>k' \<in> set kcunits. \<forall>out.
        cfe_ctl_q (entrybuf w' k' out) = cfil_queue_init \<and>
        cfe_pending_q (entrybuf w' k' out) = cfil_queue_init"
    and f: "cfe_flags (entry_at w' 1) AND CFEF_CFIL_DETACHED \<noteq> 0"
    and s: "\<forall>out data. cfil_data_common w' out data = Some (w', EPIPE)"
    by (elim exE conjE)
  from ev r have ev': "events w' = [EvWakeup, EvDefunct]" by simp
  from q k have q1: "cfe_ctl_q (entrybuf w' 1 True) = cfil_queue_init" by blast
  from s have s1: "cfil_data_common w' True (pkt 10) = Some (w', EPIPE)" by blast
  from h r d f ev' q1 s1 show ?thesis by blast
qed

subsection \<open>The flow-control lift\<close>

lemma tailq_foreach_flow_controlled_None [simp]: "tailq_foreach_flow_controlled kern ps = None"
  by (induction ps) auto

lemma flow_lift_loop_Some:
  assumes "flow_lift_loop kern kcunit cfc = Some kern'"
  shows "kern' = kern"
  using assms
  by (subst (asm) flow_lift_loop.simps) (auto split: if_splits)

text \<open>
  Claim C6. A resume notification is to clear the flow-controlled flag of the filter and
  to service again the queues of the entries of that filter that are flow controlled.
  \<open>cfil_ctl_rcvd\<close> clears the flag, but its search for a flow-controlled entry never
  stops at one: the loop runs to the end of the list and leaves \<open>entry\<close> \<open>NULL\<close>, so the
  function leaves at \<open>if (entry == NULL) break\<close> every time. Whatever the state, a call
  that returns sends no event, makes no external call and leaves every flow and every
  list of entries as it was.
\<close>

theorem cfil_ctl_rcvd_services_nothing:
  assumes "cfil_ctl_rcvd kern kcunit unitinfo = Some kern'"
  shows "events kern' = events kern \<and> ext_calls kern' = ext_calls kern \<and> flows kern' = flows kern \<and>
         (\<forall>c. cf_sock_entries (filters kern' c) = cf_sock_entries (filters kern c))"
proof -
  have 1: "events (map_filter f c kern) = events kern"
    "ext_calls (map_filter f c kern) = ext_calls kern"
    "flows (map_filter f c kern) = flows kern"
    "cf_sock_entries (filters (map_filter (\<lambda>f. f\<lparr>cf_flags := g f\<rparr>) c kern) c') =
       cf_sock_entries (filters kern c')" for f g c c'
    by (simp_all add: map_filter_def)
  from assms show ?thesis
    by (auto simp: cfil_ctl_rcvd_def Let_def 1 split: option.splits if_splits
        dest!: flow_lift_loop_Some)
qed

text \<open>
  On \<open>ex_kernel\<close> the filter of unit 1 and its entry on flow 0 are flow controlled, and the
  entry holds 50 bytes the filter has asked for and not yet seen. The notification
  clears the flag of the filter and nothing else, while servicing the entry, as the body
  of the loop does, would deliver the bytes 100 to 150 to the filter.
\<close>

theorem cfil_ctl_rcvd_services_nothing_witness:
  "cf_flags (filters ex_kernel 1) AND CFF_FLOW_CONTROLLED \<noteq> 0 \<and>
   cf_sock_entries (filters ex_kernel 1) = [(0, 1)] \<and>
   cfe_flags (entry_of_ptr ex_kernel (0, 1)) AND CFEF_FLOW_CONTROLLED \<noteq> 0 \<and>
   q_mq (cfe_ctl_q (cfe_snd (entry_of_ptr ex_kernel (0, 1)))) = [pkt 50] \<and>
   cfe_peeked (cfe_snd (entry_of_ptr ex_kernel (0, 1))) = 100 \<and>
   cfe_peek_offset (cfe_snd (entry_of_ptr ex_kernel (0, 1))) = 200 \<and>
   (\<exists>kern'. cfil_ctl_rcvd ex_kernel 1 (Some 1) = Some kern' \<and>
      cf_flags (filters kern' 1) AND CFF_FLOW_CONTROLLED = 0 \<and>
      events kern' = [] \<and> ext_calls kern' = 0 \<and> flows kern' = flows ex_kernel \<and>
      map_option events (lift_service (focus kern' ex_stream_so ex_stalled_info) 1) =
        Some [EvData 1 True 100 150])"
proof -
  have pre: "cf_flags (filters ex_kernel 1) AND CFF_FLOW_CONTROLLED \<noteq> 0"
   "cf_sock_entries (filters ex_kernel 1) = [(0, 1)]"
   "cfe_flags (entry_of_ptr ex_kernel (0, 1)) AND CFEF_FLOW_CONTROLLED \<noteq> 0"
   "q_mq (cfe_ctl_q (cfe_snd (entry_of_ptr ex_kernel (0, 1)))) = [pkt 50]"
   "cfe_peeked (cfe_snd (entry_of_ptr ex_kernel (0, 1))) = 100"
   "cfe_peek_offset (cfe_snd (entry_of_ptr ex_kernel (0, 1))) = 200"
    by code_simp+
  have "\<not> Option.is_none (cfil_ctl_rcvd ex_kernel 1 (Some 1))" by code_simp
  then obtain kern' where r: "cfil_ctl_rcvd ex_kernel 1 (Some 1) = Some kern'"
    by (auto simp: Option.is_none_def)
  have "cf_flags (filters (the (cfil_ctl_rcvd ex_kernel 1 (Some 1))) 1) AND CFF_FLOW_CONTROLLED = 0"
    by code_simp
  with r have f: "cf_flags (filters kern' 1) AND CFF_FLOW_CONTROLLED = 0" by simp
  have "map_option events (lift_service (focus (the (cfil_ctl_rcvd ex_kernel 1 (Some 1)))
           ex_stream_so ex_stalled_info) 1) = Some [EvData 1 True 100 150]"
    by code_simp
  with r have l: "map_option events (lift_service (focus kern' ex_stream_so ex_stalled_info) 1) =
        Some [EvData 1 True 100 150]" by simp
  have z: "events ex_kernel = []" "ext_calls ex_kernel = 0" by (simp_all add: ex_kernel_def)
  from cfil_ctl_rcvd_services_nothing [OF r] z
  have "events kern' = []" "ext_calls kern' = 0" "flows kern' = flows ex_kernel" by simp_all
  with pre r f l show ?thesis by blast
qed

end
